(* ===== verification/Prelude.thy ===== *)
theory Prelude
  imports Complex_Main "HOL-Library.AList" "HOL-Library.Multiset"
begin

text \<open>
  Shared vocabulary of the DistroSync development: Python values as they cross a component
  boundary (JSON values, exceptions), Python dictionaries as association lists in insertion
  order, bounded deques, list slices, and the generic lemmas the component theories share.

  \<^item> A \<open>dict\<close> is an association list. Assigning to a present key keeps its position and to a
    new key appends (\<open>dict_set\<close>, the library's \<open>AList.update\<close>); \<open>d.pop(k, None)\<close> and
    \<open>del d[k]\<close> remove the key (\<open>dict_del\<close>). Iteration order is list order. A well-formed
    dictionary has distinct keys (\<open>dict_ok\<close>).
  \<^item> A \<open>float\<close> (time stamps, token counts, latencies) is an exact rational number: the
    rounding of IEEE doubles is not modelled.
  \<^item> A \<open>str\<close> is a \<open>string\<close>, an \<open>int\<close> is an unbounded \<open>int\<close>, a counter that
    starts at 0 and only grows is a \<open>nat\<close>.
\<close>

section \<open>Values and exceptions\<close>

type_synonym time = rat

datatype json =
    JNull
  | JBool bool
  | JInt int
  | JFloat rat
  | JStr string
  | JList "json list"
  | JDict "(string \<times> json) list"

text \<open>Truth value testing, as \<open>if not x\<close> does it.\<close>

fun truthy :: "json \<Rightarrow> bool" where
  "truthy JNull = False"
| "truthy (JBool b) = b"
| "truthy (JInt i) = (i \<noteq> 0)"
| "truthy (JFloat x) = (x \<noteq> 0)"
| "truthy (JStr s) = (s \<noteq> [])"
| "truthy (JList xs) = (xs \<noteq> [])"
| "truthy (JDict kvs) = (kvs \<noteq> [])"

text \<open>
  The exceptions the modelled code raises. \<open>IllTyped f\<close> marks a request whose field \<open>f\<close> holds
  a JSON value of a type the model does not follow any further (a number as a queue name, an
  object as a limit): the model stops there instead of guessing.
\<close>

datatype exn =
    AttributeError
  | TypeError
  | OverflowError
  | IndexError
  | KeyError
  | ZeroDivisionError
  | JSONDecodeError
  | SqliteError
  | OSError
  | RecursionError
  | ValueError
  | RuntimeError string
  | ConnectionError string
  | IncompleteReadError
  | IllTyped string

section \<open>Collections of facts\<close>

named_theorems dict_simps \<open>lookup, key and content equations of dictionaries\<close>
named_theorems op_defs \<open>defining equations of the component operations\<close>
named_theorems inv_intros \<open>preservation of component invariants\<close>

section \<open>Dictionaries\<close>

type_synonym ('k, 'v) dict = "('k \<times> 'v) list"

abbreviation dict_get :: "('k, 'v) dict \<Rightarrow> 'k \<Rightarrow> 'v option" where
  "dict_get d k \<equiv> map_of d k"

abbreviation dict_set :: "'k \<Rightarrow> 'v \<Rightarrow> ('k, 'v) dict \<Rightarrow> ('k, 'v) dict" where
  "dict_set k v d \<equiv> AList.update k v d"

abbreviation dict_del :: "'k \<Rightarrow> ('k, 'v) dict \<Rightarrow> ('k, 'v) dict" where
  "dict_del k d \<equiv> AList.delete k d"

abbreviation dict_keys :: "('k, 'v) dict \<Rightarrow> 'k list" where
  "dict_keys d \<equiv> map fst d"

abbreviation dict_values :: "('k, 'v) dict \<Rightarrow> 'v list" where
  "dict_values d \<equiv> map snd d"

definition dict_ok :: "('k, 'v) dict \<Rightarrow> bool" where
  "dict_ok d \<longleftrightarrow> distinct (map fst d)"

definition dict_get_or :: "('k, 'v) dict \<Rightarrow> 'k \<Rightarrow> 'v \<Rightarrow> 'v" where
  "dict_get_or d k v = (case map_of d k of Some w \<Rightarrow> w | None \<Rightarrow> v)"

text \<open>Reading a field of a JSON object: \<open>d.get(k)\<close> is \<open>None\<close> for a missing key.\<close>

abbreviation jget :: "(string \<times> json) list \<Rightarrow> string \<Rightarrow> json" where
  "jget d k \<equiv> dict_get_or d k JNull"

lemma dict_ok_Nil [simp]: "dict_ok []"
  by (simp add: dict_ok_def)

lemma dict_ok_set [simp, intro]: "dict_ok d \<Longrightarrow> dict_ok (dict_set k v d)"
  by (simp add: dict_ok_def distinct_update)

lemma dict_ok_del [simp, intro]: "dict_ok d \<Longrightarrow> dict_ok (dict_del k d)"
  by (simp add: dict_ok_def distinct_delete)

lemma dict_get_set [simp, dict_simps]:
  "dict_get (dict_set k v d) k' = (if k' = k then Some v else dict_get d k')"
  by (simp add: update_conv')

lemma dict_get_del [simp, dict_simps]:
  "dict_get (dict_del k d) k' = (if k' = k then None else dict_get d k')"
  by (simp add: delete_conv')

lemma dict_keys_set [dict_simps]: "set (dict_keys (dict_set k v d)) = insert k (set (dict_keys d))"
  using dom_update [of k v d] by simp

lemma dict_set_content [dict_simps]:
  "dict_ok d \<Longrightarrow> set (dict_set k v d) = insert (k, v) {p \<in> set d. fst p \<noteq> k}"
  by (induction d) (auto simp: dict_ok_def rev_image_eqI)

lemma dict_del_content [dict_simps]: "set (dict_del k d) = {p \<in> set d. fst p \<noteq> k}"
  by (auto simp: AList.delete_eq)

lemma dict_get_content: "dict_ok d \<Longrightarrow> dict_get d k = Some v \<longleftrightarrow> (k, v) \<in> set d"
  by (simp add: dict_ok_def)

lemma dict_get_in: "dict_get d k = Some v \<Longrightarrow> (k, v) \<in> set d"
  by (rule map_of_SomeD)

lemma dict_get_None: "dict_get d k = None \<longleftrightarrow> k \<notin> set (dict_keys d)"
  by (simp add: map_of_eq_None_iff)

lemma dict_set_new: "dict_get d k = None \<Longrightarrow> dict_set k v d = d @ [(k, v)]"
  by (induction d) (auto split: if_splits)

lemma length_dict_set:
  "length (dict_set k v d) = (if dict_get d k = None then Suc (length d) else length d)"
  by (induction d) auto

lemma mset_dict_del:
  "dict_ok d \<Longrightarrow> dict_get d k = Some v \<Longrightarrow> mset d = add_mset (k, v) (mset (dict_del k d))"
proof (induction d)
  case Nil
  then show ?case by simp
next
  case (Cons p d)
  then show ?case
    by (cases p) (auto simp: dict_ok_def)
qed

lemma length_dict_del:
  assumes "dict_ok d" and "dict_get d k = Some v"
  shows "length d = Suc (length (dict_del k d))"
  using arg_cong [OF mset_dict_del [OF assms], of size] by simp

lemma mset_values_del:
  "dict_ok d \<Longrightarrow> dict_get d k = Some v \<Longrightarrow>
     mset (dict_values d) = add_mset v (mset (dict_values (dict_del k d)))"
  using arg_cong [OF mset_dict_del, of d k v "image_mset snd"] by simp

lemma mset_values_new:
  "dict_get d k = None \<Longrightarrow> mset (dict_values (dict_set k v d)) = add_mset v (mset (dict_values d))"
  by (simp add: dict_set_new)

section \<open>Dictionaries of lists\<close>

text \<open>All elements stored in a dictionary of lists, key by key.\<close>

definition flat :: "('k, 'a list) dict \<Rightarrow> 'a list" where
  "flat d = concat (map snd d)"

lemma flat_Nil [simp]: "flat [] = []"
  and flat_Cons [simp]: "flat ((k, xs) # d) = xs @ flat d"
  and flat_append [simp]: "flat (d @ e) = flat d @ flat e"
  by (simp_all add: flat_def)

lemma mset_flat_set_new:
  "dict_get d k = None \<Longrightarrow> mset (flat (dict_set k xs d)) = mset xs + mset (flat d)"
  by (simp add: dict_set_new)

lemma mset_flat_set:
  "dict_get d k = Some ys \<Longrightarrow> mset (flat (dict_set k xs d)) + mset ys = mset xs + mset (flat d)"
proof (induction d)
  case Nil
  then show ?case by simp
next
  case (Cons p d)
  then show ?case
    by (cases p) (auto simp: add_ac split: if_splits)
qed

lemma set_flat: "x \<in> set (flat d) \<longleftrightarrow> (\<exists>k xs. (k, xs) \<in> set d \<and> x \<in> set xs)"
  by (force simp: flat_def)

section \<open>Multisets without repetition\<close>

definition no_dups :: "'a multiset \<Rightarrow> bool" where
  "no_dups M \<longleftrightarrow> (\<forall>x. count M x \<le> 1)"

lemma no_dups_empty [simp]: "no_dups {#}"
  by (simp add: no_dups_def)

lemma no_dups_add [simp]: "no_dups (add_mset x M) \<longleftrightarrow> x \<notin># M \<and> no_dups M"
proof
  assume dups: "no_dups (add_mset x M)"
  have "count M y \<le> 1" for y
    using dups [unfolded no_dups_def, rule_format, of y] by (simp split: if_splits)
  moreover have "count M x = 0"
    using dups [unfolded no_dups_def, rule_format, of x] by simp
  ultimately show "x \<notin># M \<and> no_dups M"
    by (simp add: no_dups_def not_in_iff)
next
  assume "x \<notin># M \<and> no_dups M"
  then show "no_dups (add_mset x M)"
    by (simp add: no_dups_def not_in_iff)
qed

lemma no_dups_subset: "no_dups M \<Longrightarrow> N \<subseteq># M \<Longrightarrow> no_dups N"
  by (meson le_trans mset_subset_eq_count no_dups_def)

lemma no_dups_disjoint: "no_dups (M + N) \<Longrightarrow> x \<in># M \<Longrightarrow> x \<notin># N"
proof
  assume "no_dups (M + N)" and "x \<in># M" and "x \<in># N"
  then have "count (M + N) x \<le> 1" and "count M x \<ge> 1" and "count N x \<ge> 1"
    by (auto simp: no_dups_def Suc_le_eq simp del: count_union)
  then show False by simp
qed

lemma no_dups_mset: "no_dups (mset xs) \<longleftrightarrow> distinct xs"
  by (induction xs) simp_all

section \<open>Deques and slices\<close>

text \<open>\<open>append\<close> on a \<open>deque(maxlen=n)\<close>: the oldest entries fall off the left end.\<close>

definition push_max :: "nat \<Rightarrow> 'a \<Rightarrow> 'a list \<Rightarrow> 'a list" where
  "push_max n x xs = (let ys = xs @ [x] in drop (length ys - n) ys)"

lemma length_push_max: "length (push_max n x xs) = min n (Suc (length xs))"
  by (simp add: push_max_def Let_def)

lemma push_max_suffix: "0 < n \<Longrightarrow> length xs \<le> n \<Longrightarrow>
    push_max n x xs = (if length xs < n then xs @ [x] else tl xs @ [x])"
  by (cases xs) (auto simp: push_max_def Let_def not_less)

lemma set_push_max: "set (push_max n x xs) \<subseteq> insert x (set xs)"
  by (auto simp: push_max_def Let_def simp del: drop_append dest!: in_set_dropD)

text \<open>The slice \<open>xs[:limit]\<close>: a negative bound counts from the end.\<close>

definition py_take :: "int \<Rightarrow> 'a list \<Rightarrow> 'a list" where
  "py_take limit xs =
     (if limit < 0 then take (nat (int (length xs) + limit)) xs else take (nat limit) xs)"

lemma set_py_take: "set (py_take limit xs) \<subseteq> set xs"
  by (auto simp: py_take_def dest: in_set_takeD)

lemma py_take_nonneg: "0 \<le> limit \<Longrightarrow> py_take limit xs = take (nat limit) xs"
  by (simp add: py_take_def)

text \<open>\<open>round(x, n)\<close>: to the nearest multiple of a power of ten, ties to even.\<close>

definition py_round :: "nat \<Rightarrow> rat \<Rightarrow> rat" where
  "py_round digits x =
     (let y = x * 10 ^ digits; n = \<lfloor>y\<rfloor>; f = y - of_int n
      in of_int (if f < 1 / 2 then n else if f > 1 / 2 then n + 1 else if even n then n else n + 1)
         / 10 ^ digits)"

text \<open>\<open>int(x)\<close> on a float truncates towards zero.\<close>

definition py_int :: "rat \<Rightarrow> int" where
  "py_int x = (if x < 0 then \<lceil>x\<rceil> else \<lfloor>x\<rfloor>)"

text \<open>\<open>xs[i]\<close>: a negative index counts from the end, an index out of range raises.\<close>

definition py_index :: "'a list \<Rightarrow> int \<Rightarrow> exn + 'a" where
  "py_index xs i =
     (let j = (if i < 0 then i + int (length xs) else i)
      in if 0 \<le> j \<and> j < int (length xs) then Inr (xs ! nat j) else Inl IndexError)"

section \<open>Transition systems\<close>

text \<open>
  A machine given by its initial states and its steps, with an invariant that the initial
  states satisfy and every step keeps. Components interpret this on their own step relation;
  the reachable states then satisfy the invariant.
\<close>

inductive reach :: "('s \<Rightarrow> bool) \<Rightarrow> ('s \<Rightarrow> 's \<Rightarrow> bool) \<Rightarrow> 's \<Rightarrow> bool" for init step where
  reach_init: "init s \<Longrightarrow> reach init step s"
| reach_step: "reach init step s \<Longrightarrow> step s t \<Longrightarrow> reach init step t"

locale inductive_invariant =
  fixes init :: "'s \<Rightarrow> bool"
    and step :: "'s \<Rightarrow> 's \<Rightarrow> bool"
    and inv :: "'s \<Rightarrow> bool"
  assumes inv_init: "init s \<Longrightarrow> inv s"
    and inv_step: "inv s \<Longrightarrow> step s t \<Longrightarrow> inv t"
begin

lemma reach_inv: "reach init step s \<Longrightarrow> inv s"
  by (induction rule: reach.induct) (auto intro: inv_init inv_step)

lemma rtranclp_inv: "step\<^sup>*\<^sup>* s t \<Longrightarrow> inv s \<Longrightarrow> inv t"
  by (induction rule: rtranclp_induct) (auto intro: inv_step)

end

text \<open>
  Runs of a machine whose steps carry labels, with the sequence of labels.
\<close>

inductive run :: "('s \<Rightarrow> 'l \<Rightarrow> 's \<Rightarrow> bool) \<Rightarrow> 's \<Rightarrow> 'l list \<Rightarrow> 's \<Rightarrow> bool" for step where
  run_nil: "run step s [] s"
| run_snoc: "run step s ls t \<Longrightarrow> step t l u \<Longrightarrow> run step s (ls @ [l]) u"

lemma run_single: "step s l t \<Longrightarrow> run step s [l] t"
  using run_snoc [OF run_nil] by force

lemma run_append: "run step t ms u \<Longrightarrow> run step s ls t \<Longrightarrow> run step s (ls @ ms) u"
  by (induction rule: run.induct) (auto simp flip: append_assoc intro: run_snoc)

text \<open>
  A forward simulation with labels: under an invariant, every concrete step is the abstract step
  with the same label. The concrete runs then have the labels of abstract runs, and whatever
  the abstract machine keeps true holds of the concrete runs through the abstraction.
\<close>

locale forward_simulation =
  fixes cstep :: "'c \<Rightarrow> 'l \<Rightarrow> 'c \<Rightarrow> bool"
    and astep :: "'a \<Rightarrow> 'l \<Rightarrow> 'a \<Rightarrow> bool"
    and abs :: "'c \<Rightarrow> 'a"
    and inv :: "'c \<Rightarrow> bool"
  assumes sim_inv: "inv s \<Longrightarrow> cstep s l t \<Longrightarrow> inv t"
    and sim_step: "inv s \<Longrightarrow> cstep s l t \<Longrightarrow> astep (abs s) l (abs t)"
begin

lemma sim_run: "run cstep s ls t \<Longrightarrow> inv s \<Longrightarrow> inv t \<and> run astep (abs s) ls (abs t)"
  by (induction rule: run.induct) (auto intro: run_nil run_snoc sim_inv sim_step)

lemma sim_preserves:
  assumes "\<And>a l b. P a \<Longrightarrow> astep a l b \<Longrightarrow> P b" and "inv s" and "P (abs s)" and "run cstep s ls t"
  shows "P (abs t)"
proof -
  have "run astep (abs s) ls (abs t)" using sim_run assms by blast
  then show ?thesis using assms(3) by (induction rule: run.induct) (auto intro: assms(1))
qed

end

end
