(* ===== verification/Dead_Letter.thy ===== *)
theory Dead_Letter
  imports Prelude
begin

text \<open>
  Tasks (\<open>Task\<close> of \<open>broker/queue_manager.py\<close>) and the in-memory dead letter queue
  (\<open>DeadLetterQueue\<close> of \<open>broker/dead_letter.py\<close>): the record of its state, one definition per
  method, the well-formedness invariant \<open>dlq_ok\<close> with its preservation, the counter balance
  \<open>dlq_balance\<close>, and the interface \<open>retry_target\<close> that \<open>retry\<close> expects of the queue
  manager it is handed.
\<close>

section \<open>Tasks\<close>

datatype task_status = Pending | InFlight | Done | Failed | DeadLettered

fun status_str :: "task_status \<Rightarrow> string" where
  "status_str Pending = ''pending''"
| "status_str InFlight = ''in_flight''"
| "status_str Done = ''done''"
| "status_str Failed = ''failed''"
| "status_str DeadLettered = ''dead_lettered''"

text \<open>\<open>assigned_worker\<close> holds whatever JSON value the consumer sent as its identifier; the code
  does not check that it is a string.\<close>

record task =
  task_id :: string
  queue_name :: string
  payload :: json
  status :: task_status
  created_at :: time
  assigned_worker :: "json option"
  attempts :: int
  dead_lettered_at :: "time option"

text \<open>The constructor \<open>Task(task_id, queue_name, payload)\<close> with its field defaults; the
  attribute \<open>dead_lettered_at\<close> is only added when a task is dead-lettered.\<close>

definition new_task :: "string \<Rightarrow> string \<Rightarrow> json \<Rightarrow> time \<Rightarrow> task" where
  "new_task tid q p now =
     \<lparr>task_id = tid, queue_name = q, payload = p, status = Pending, created_at = now,
      assigned_worker = None, attempts = 0, dead_lettered_at = None\<rparr>"

lemma new_task_sel [simp]:
  "task_id (new_task tid q p now) = tid"
  "queue_name (new_task tid q p now) = q"
  "payload (new_task tid q p now) = p"
  "status (new_task tid q p now) = Pending"
  "created_at (new_task tid q p now) = now"
  "assigned_worker (new_task tid q p now) = None"
  "attempts (new_task tid q p now) = 0"
  "dead_lettered_at (new_task tid q p now) = None"
  by (simp_all add: new_task_def)

section \<open>State and operations\<close>

record dead_letter_queue =
  dlq_tasks :: "(string, task) dict"
  dlq_total_received :: nat
  dlq_total_retried :: nat
  dlq_total_purged :: nat

definition dlq_init :: dead_letter_queue where
  "dlq_init = \<lparr>dlq_tasks = [], dlq_total_received = 0, dlq_total_retried = 0, dlq_total_purged = 0\<rparr>"

definition dlq_mark :: "time \<Rightarrow> task \<Rightarrow> task" where
  "dlq_mark now t = t\<lparr>status := DeadLettered, dead_lettered_at := Some now\<rparr>"

definition dlq_add :: "time \<Rightarrow> task \<Rightarrow> dead_letter_queue \<Rightarrow> dead_letter_queue" where
  "dlq_add now t d =
     d\<lparr>dlq_tasks := dict_set (task_id t) (dlq_mark now t) (dlq_tasks d),
       dlq_total_received := Suc (dlq_total_received d)\<rparr>"

text \<open>The summaries \<open>peek\<close> returns, and their JSON form.\<close>

record dlq_entry =
  de_task_id :: string
  de_queue_name :: string
  de_payload :: json
  de_attempts :: int
  de_status :: task_status
  de_dead_lettered_at :: "time option"

definition dlq_summary :: "task \<Rightarrow> dlq_entry" where
  "dlq_summary t =
     \<lparr>de_task_id = task_id t, de_queue_name = queue_name t, de_payload = payload t,
      de_attempts = attempts t, de_status = status t,
      de_dead_lettered_at = dead_lettered_at t\<rparr>"

definition dlq_peek :: "int \<Rightarrow> dead_letter_queue \<Rightarrow> dlq_entry list" where
  "dlq_peek limit d = map (dlq_summary \<circ> snd) (py_take limit (dlq_tasks d))"

definition dlq_remove :: "string \<Rightarrow> dead_letter_queue \<Rightarrow> bool \<times> dead_letter_queue" where
  "dlq_remove tid d =
     (case dict_get (dlq_tasks d) tid of
        None \<Rightarrow> (False, d)
      | Some _ \<Rightarrow> (True, d\<lparr>dlq_tasks := dict_del tid (dlq_tasks d)\<rparr>))"

text \<open>
  \<open>retry\<close> calls \<open>queue_manager.requeue(task, front=False)\<close> on the queue manager it is handed;
  \<open>rq\<close> is that method and \<open>qm\<close> the state it works on. The first half pops the task under the
  queue's own lock, the second resets and re-enqueues it.
\<close>

definition dlq_take :: "string \<Rightarrow> dead_letter_queue \<Rightarrow> task option \<times> dead_letter_queue" where
  "dlq_take tid d =
     (case dict_get (dlq_tasks d) tid of
        None \<Rightarrow> (None, d)
      | Some t \<Rightarrow> (Some t, d\<lparr>dlq_tasks := dict_del tid (dlq_tasks d)\<rparr>))"

definition retry_task :: "task \<Rightarrow> task" where
  "retry_task t = t\<lparr>status := Pending, attempts := 0, assigned_worker := None\<rparr>"

definition dlq_retry_put ::
  "(task \<Rightarrow> bool \<Rightarrow> 'q \<Rightarrow> 'q) \<Rightarrow> task \<Rightarrow> dead_letter_queue \<Rightarrow> 'q \<Rightarrow> dead_letter_queue \<times> 'q" where
  "dlq_retry_put rq t d qm =
     (let qm1 = rq (retry_task t) False qm
      in (d\<lparr>dlq_total_retried := Suc (dlq_total_retried d)\<rparr>, qm1))"

definition dlq_retry ::
  "(task \<Rightarrow> bool \<Rightarrow> 'q \<Rightarrow> 'q) \<Rightarrow> string \<Rightarrow> dead_letter_queue \<Rightarrow> 'q \<Rightarrow> bool \<times> dead_letter_queue \<times> 'q" where
  "dlq_retry rq tid d qm =
     (case dlq_take tid d of
        (None, d') \<Rightarrow> (False, d', qm)
      | (Some t, d') \<Rightarrow> (True, dlq_retry_put rq t d' qm))"

definition dlq_purge :: "dead_letter_queue \<Rightarrow> nat \<times> dead_letter_queue" where
  "dlq_purge d =
     (let n = length (dlq_tasks d)
      in (n, d\<lparr>dlq_tasks := [], dlq_total_purged := dlq_total_purged d + n\<rparr>))"

definition dlq_count :: "dead_letter_queue \<Rightarrow> nat" where
  "dlq_count d = length (dlq_tasks d)"

definition dlq_get_stats :: "dead_letter_queue \<Rightarrow> (string \<times> json) list" where
  "dlq_get_stats d =
     [(''current_size'', JInt (int (length (dlq_tasks d)))),
      (''total_received'', JInt (int (dlq_total_received d))),
      (''total_retried'', JInt (int (dlq_total_retried d))),
      (''total_purged'', JInt (int (dlq_total_purged d)))]"

lemmas dlq_op_defs [op_defs] =
  dlq_add_def dlq_remove_def dlq_take_def dlq_retry_put_def dlq_retry_def dlq_purge_def dlq_mark_def retry_task_def

section \<open>Invariant\<close>

definition dead_task :: "string \<Rightarrow> task \<Rightarrow> bool" where
  "dead_task k t \<longleftrightarrow> task_id t = k \<and> status t = DeadLettered \<and> dead_lettered_at t \<noteq> None"

definition dlq_ok :: "dead_letter_queue \<Rightarrow> bool" where
  "dlq_ok d \<longleftrightarrow> dict_ok (dlq_tasks d) \<and> (\<forall>(k, t) \<in> set (dlq_tasks d). dead_task k t)"

definition dlq_balance :: "dead_letter_queue \<Rightarrow> bool" where
  "dlq_balance d \<longleftrightarrow>
     length (dlq_tasks d) + dlq_total_retried d + dlq_total_purged d \<le> dlq_total_received d"

lemma dlq_ok_dict: "dlq_ok d \<Longrightarrow> dict_ok (dlq_tasks d)"
  by (simp add: dlq_ok_def)

lemma dlq_ok_getD: "dlq_ok d \<Longrightarrow> dict_get (dlq_tasks d) k = Some t \<Longrightarrow> dead_task k t"
  by (auto simp: dlq_ok_def dest!: dict_get_in)

lemma dlq_ok_init [simp]: "dlq_ok dlq_init"
  by (simp add: dlq_ok_def dlq_init_def)

lemma dlq_ok_counters [simp]:
  "dlq_ok (d\<lparr>dlq_total_received := n\<rparr>) = dlq_ok d"
  "dlq_ok (d\<lparr>dlq_total_retried := n\<rparr>) = dlq_ok d"
  "dlq_ok (d\<lparr>dlq_total_purged := n\<rparr>) = dlq_ok d"
  by (simp_all add: dlq_ok_def)

lemma dlq_ok_add [inv_intros]: "dlq_ok d \<Longrightarrow> dlq_ok (dlq_add now t d)"
  by (auto simp: dlq_ok_def dlq_add_def dlq_mark_def dead_task_def dict_simps)

lemma dlq_ok_del: "dlq_ok d \<Longrightarrow> dlq_ok (d\<lparr>dlq_tasks := dict_del k (dlq_tasks d)\<rparr>)"
  by (auto simp: dlq_ok_def dict_simps)

lemma dlq_ok_remove [inv_intros]: "dlq_ok d \<Longrightarrow> dlq_ok (snd (dlq_remove tid d))"
  by (simp add: dlq_remove_def dlq_ok_del split: option.split)

lemma dlq_ok_take [inv_intros]: "dlq_ok d \<Longrightarrow> dlq_ok (snd (dlq_take tid d))"
  by (simp add: dlq_take_def dlq_ok_del split: option.split)

lemma dlq_ok_retry [inv_intros]: "dlq_ok d \<Longrightarrow> dlq_ok (fst (snd (dlq_retry rq tid d qm)))"
  using dlq_ok_take [of d tid] by (auto simp: dlq_retry_def dlq_retry_put_def Let_def split: prod.split option.split)

lemma dlq_ok_purge [inv_intros]: "dlq_ok d \<Longrightarrow> dlq_ok (snd (dlq_purge d))"
  by (simp add: dlq_ok_def dlq_purge_def Let_def)

section \<open>The interface \<open>retry\<close> relies on\<close>

text \<open>
  What \<open>retry\<close> needs of a queue manager: \<open>requeue\<close> puts exactly the task it is given, marked
  pending and unassigned, among the pending tasks and leaves the other pending tasks alone.
\<close>

locale retry_target =
  fixes rq :: "task \<Rightarrow> bool \<Rightarrow> 'q \<Rightarrow> 'q"
    and pend :: "'q \<Rightarrow> task multiset"
  assumes requeue_adds:
    "pend (rq t front q) = add_mset (t\<lparr>status := Pending, assigned_worker := None\<rparr>) (pend q)"
begin

lemma retry_found:
  assumes "dict_get (dlq_tasks d) tid = Some t"
  shows "dlq_retry rq tid d q =
      (True, d\<lparr>dlq_tasks := dict_del tid (dlq_tasks d),
               dlq_total_retried := Suc (dlq_total_retried d)\<rparr>, rq (retry_task t) False q)"
    and "pend (snd (snd (dlq_retry rq tid d q))) = add_mset (retry_task t) (pend q)"
  using assms by (simp_all add: dlq_retry_def dlq_retry_put_def Let_def dlq_take_def requeue_adds retry_task_def)

lemma retry_missing:
  assumes "dict_get (dlq_tasks d) tid = None"
  shows "dlq_retry rq tid d q = (False, d, q)"
  using assms by (simp add: dlq_retry_def dlq_take_def)

text \<open>A successful retry moves one task: what the dead letter queue loses, the pending tasks gain,
  with the same identifier, payload and queue.\<close>

lemma retry_conserves:
  assumes "dict_ok (dlq_tasks d)" and "\<forall>(k, t) \<in> set (dlq_tasks d). task_id t = k"
    and "dlq_retry rq tid d q = (ok, d', q')"
  shows "image_mset task_id (mset (dict_values (dlq_tasks d'))) + image_mset task_id (pend q') =
         image_mset task_id (mset (dict_values (dlq_tasks d))) + image_mset task_id (pend q)"
proof (cases "dict_get (dlq_tasks d) tid")
  case None
  with assms(3) show ?thesis by (simp add: retry_missing)
next
  case (Some t)
  have d': "dlq_tasks d' = dict_del tid (dlq_tasks d)" and q': "pend q' = add_mset (retry_task t) (pend q)"
    using assms(3) retry_found [OF Some, of q] by auto
  have "mset (dlq_tasks d) = add_mset (tid, t) (mset (dict_del tid (dlq_tasks d)))"
    by (rule mset_dict_del [OF assms(1) Some])
  then show ?thesis
    by (simp add: d' q' retry_task_def)
qed

end

end
