(* ===== verification/Queue_Manager.thy ===== *)
theory Queue_Manager
  imports Dead_Letter
begin

text \<open>
  The data plane of the broker, \<open>QueueManager\<close> of \<open>broker/queue_manager.py\<close>: named FIFO
  queues, the in-flight registry, the archive of completed tasks, the retry and dead-letter
  policy. Every method that changes state is one definition over the record
  \<open>queue_manager\<close>; an \<open>async with self._lock\<close> section is one atomic update, and
  \<open>negative_acknowledge\<close>, whose second half runs after the lock is released, is split into
  \<open>nack_take\<close> and \<open>nack_finish\<close> (theory \<open>Task_Lifecycle\<close> interleaves other operations
  between them).

  The lemmas show the well-formedness invariant \<open>qm_ok\<close>, conservation of the task
  identifiers (\<open>qm_pool\<close>), the FIFO behaviour of each queue, the retry policy, and the
  interfaces \<open>retry_target\<close> and \<open>requeue_service\<close> that the dead letter queue and the worker
  registry rely on.
\<close>

section \<open>State\<close>

record queue_manager =
  qm_queues :: "(string, task list) dict"
  qm_in_flight :: "(string, task) dict"
  qm_completed :: "(string, task) dict"
  qm_dlq :: dead_letter_queue
  max_retries :: int
  total_enqueued :: nat
  total_dequeued :: nat
  total_acked :: nat
  total_nacked :: nat
  total_dead_lettered :: nat

definition qm_init :: "int \<Rightarrow> queue_manager" where
  "qm_init retries =
     \<lparr>qm_queues = [], qm_in_flight = [], qm_completed = [], qm_dlq = dlq_init,
      max_retries = retries, total_enqueued = 0, total_dequeued = 0, total_acked = 0,
      total_nacked = 0, total_dead_lettered = 0\<rparr>"

text \<open>\<open>reset\<close> clears the task containers and the counters of the manager itself; of the dead
  letter queue it clears the tasks only.\<close>

definition qm_reset :: "queue_manager \<Rightarrow> queue_manager" where
  "qm_reset qm =
     qm\<lparr>qm_queues := [], qm_in_flight := [], qm_completed := [],
        qm_dlq := (qm_dlq qm)\<lparr>dlq_tasks := []\<rparr>,
        total_enqueued := 0, total_dequeued := 0, total_acked := 0, total_nacked := 0,
        total_dead_lettered := 0\<rparr>"

definition ensure_queue :: "string \<Rightarrow> queue_manager \<Rightarrow> queue_manager" where
  "ensure_queue q qm =
     (if dict_get (qm_queues qm) q = None then qm\<lparr>qm_queues := dict_set q [] (qm_queues qm)\<rparr>
      else qm)"

text \<open>The tasks of one queue (\<open>self._queues[q]\<close> after \<open>_ensure_queue\<close>, or
  \<open>self._queues.get(q, deque())\<close>).\<close>

definition queue_of :: "queue_manager \<Rightarrow> string \<Rightarrow> task list" where
  "queue_of qm q = dict_get_or (qm_queues qm) q []"

definition put_queue :: "string \<Rightarrow> task list \<Rightarrow> queue_manager \<Rightarrow> queue_manager" where
  "put_queue q ts qm = qm\<lparr>qm_queues := dict_set q ts (qm_queues qm)\<rparr>"

section \<open>Operations\<close>

text \<open>\<open>enqueue\<close>: the task identifier \<open>tid\<close> is the \<open>uuid.uuid4()\<close> drawn by the call, \<open>now\<close>
  the \<open>time.time()\<close> of the task's \<open>created_at\<close> default.\<close>

definition enqueue :: "string \<Rightarrow> time \<Rightarrow> string \<Rightarrow> json \<Rightarrow> queue_manager \<Rightarrow> string \<times> queue_manager" where
  "enqueue tid now q p qm =
     (let t = new_task tid q p now;
          qm1 = ensure_queue q qm;
          qm2 = put_queue q (queue_of qm1 q @ [t]) qm1
      in (tid, qm2\<lparr>total_enqueued := Suc (total_enqueued qm2)\<rparr>))"

definition enqueue_recovered ::
  "time \<Rightarrow> string \<Rightarrow> string \<Rightarrow> json \<Rightarrow> int \<Rightarrow> queue_manager \<Rightarrow> string \<times> queue_manager" where
  "enqueue_recovered now q tid p n qm =
     (let t = (new_task tid q p now)\<lparr>attempts := n\<rparr>;
          qm1 = ensure_queue q qm;
          qm2 = put_queue q (queue_of qm1 q @ [t]) qm1
      in (tid, qm2\<lparr>total_enqueued := Suc (total_enqueued qm2)\<rparr>))"

text \<open>The dictionary \<open>dequeue\<close> returns.\<close>

record task_view =
  tv_task_id :: string
  tv_queue_name :: string
  tv_payload :: json
  tv_attempts :: int

definition view_of :: "task \<Rightarrow> task_view" where
  "view_of t = \<lparr>tv_task_id = task_id t, tv_queue_name = queue_name t,
                tv_payload = payload t, tv_attempts = attempts t\<rparr>"

fun first_nonempty :: "(string, task list) dict \<Rightarrow> string option" where
  "first_nonempty [] = None"
| "first_nonempty ((q, dq) # rest) = (if dq \<noteq> [] then Some q else first_nonempty rest)"

definition take_in_flight :: "json \<Rightarrow> task \<Rightarrow> task" where
  "take_in_flight w t =
     t\<lparr>status := InFlight, assigned_worker := Some w, attempts := attempts t + 1\<rparr>"

text \<open>The part of \<open>dequeue\<close> after the queue is chosen. \<open>popleft\<close> on an empty deque cannot
  happen there (\<open>dequeue\<close> has checked it); the model leaves the state alone in that case.\<close>

definition pop_task :: "string \<Rightarrow> json \<Rightarrow> queue_manager \<Rightarrow> task_view option \<times> queue_manager" where
  "pop_task q w qm =
     (case queue_of qm q of
        [] \<Rightarrow> (None, qm)
      | t # ts \<Rightarrow>
          (let t' = take_in_flight w t
           in (Some (view_of t'),
               (put_queue q ts qm)\<lparr>qm_in_flight := dict_set (task_id t') t' (qm_in_flight qm),
                                   total_dequeued := Suc (total_dequeued qm)\<rparr>)))"

definition dequeue :: "string \<Rightarrow> json \<Rightarrow> queue_manager \<Rightarrow> task_view option \<times> queue_manager" where
  "dequeue q w qm =
     (if q = ''*'' then
        (case first_nonempty (qm_queues qm) of
           None \<Rightarrow> (None, qm)
         | Some target \<Rightarrow> if target = [] then (None, qm) else pop_task target w qm)
      else
        (let qm1 = ensure_queue q qm
         in if queue_of qm1 q = [] then (None, qm1) else pop_task q w qm1))"

definition acknowledge :: "string \<Rightarrow> queue_manager \<Rightarrow> bool \<times> queue_manager" where
  "acknowledge tid qm =
     (case dict_get (qm_in_flight qm) tid of
        None \<Rightarrow> (False, qm)
      | Some t \<Rightarrow>
          (True, qm\<lparr>qm_in_flight := dict_del tid (qm_in_flight qm),
                    qm_completed := dict_set tid (t\<lparr>status := Done\<rparr>) (qm_completed qm),
                    total_acked := Suc (total_acked qm)\<rparr>))"

datatype nack_result =
    Requeued string int int string \<comment> \<open>task id, attempts, max\_retries, queue name\<close>
  | Dead_lettered string int string \<comment> \<open>task id, attempts, queue name\<close>

text \<open>\<open>negative_acknowledge\<close>, first half: the section under the lock.\<close>

definition nack_take :: "string \<Rightarrow> queue_manager \<Rightarrow> task option \<times> queue_manager" where
  "nack_take tid qm =
     (case dict_get (qm_in_flight qm) tid of
        None \<Rightarrow> (None, qm)
      | Some t \<Rightarrow>
          (let qm1 = qm\<lparr>qm_in_flight := dict_del tid (qm_in_flight qm),
                        total_nacked := Suc (total_nacked qm)\<rparr>
           in if attempts t \<ge> max_retries qm
              then (Some (t\<lparr>status := DeadLettered\<rparr>),
                    qm1\<lparr>total_dead_lettered := Suc (total_dead_lettered qm1)\<rparr>)
              else (Some t, qm1)))"

text \<open>Second half: dead-letter the task, or put it back at the front of its queue.\<close>

definition nack_finish :: "time \<Rightarrow> task \<Rightarrow> queue_manager \<Rightarrow> nack_result \<times> queue_manager" where
  "nack_finish now t qm =
     (if status t = DeadLettered
      then (Dead_lettered (task_id t) (attempts t) (queue_name t),
            qm\<lparr>qm_dlq := dlq_add now t (qm_dlq qm)\<rparr>)
      else
        (let t' = t\<lparr>status := Pending, assigned_worker := None\<rparr>;
             qm1 = ensure_queue (queue_name t') qm
         in (Requeued (task_id t') (attempts t') (max_retries qm1) (queue_name t'),
             put_queue (queue_name t') (t' # queue_of qm1 (queue_name t')) qm1)))"

definition negative_acknowledge ::
  "time \<Rightarrow> string \<Rightarrow> queue_manager \<Rightarrow> nack_result option \<times> queue_manager" where
  "negative_acknowledge now tid qm =
     (case nack_take tid qm of
        (None, qm1) \<Rightarrow> (None, qm1)
      | (Some t, qm1) \<Rightarrow> (case nack_finish now t qm1 of (r, qm2) \<Rightarrow> (Some r, qm2)))"

definition requeue :: "task \<Rightarrow> bool \<Rightarrow> queue_manager \<Rightarrow> queue_manager" where
  "requeue t front qm =
     (let qm1 = ensure_queue (queue_name t) qm;
          t' = t\<lparr>status := Pending, assigned_worker := None\<rparr>;
          ts = queue_of qm1 (queue_name t)
      in put_queue (queue_name t) (if front then t' # ts else ts @ [t']) qm1)"

definition requeue_by_id :: "string \<Rightarrow> queue_manager \<Rightarrow> bool \<times> queue_manager" where
  "requeue_by_id tid qm =
     (case dict_get (qm_in_flight qm) tid of
        None \<Rightarrow> (False, qm)
      | Some t \<Rightarrow>
          (let t' = t\<lparr>status := Pending, assigned_worker := None\<rparr>;
               qm1 = ensure_queue (queue_name t')
                       (qm\<lparr>qm_in_flight := dict_del tid (qm_in_flight qm)\<rparr>)
           in (True, put_queue (queue_name t') (t' # queue_of qm1 (queue_name t')) qm1)))"

text \<open>\<open>dead_letter_queue.retry(task_id, queue_manager)\<close> on the manager that owns the dead
  letter queue.\<close>

definition retry_dead :: "string \<Rightarrow> queue_manager \<Rightarrow> bool \<times> queue_manager" where
  "retry_dead tid qm =
     (case dlq_retry requeue tid (qm_dlq qm) qm of (ok, d, qm1) \<Rightarrow> (ok, qm1\<lparr>qm_dlq := d\<rparr>))"

section \<open>Queries\<close>

definition queue_depth :: "queue_manager \<Rightarrow> string \<Rightarrow> nat" where
  "queue_depth qm q = length (queue_of qm q)"

definition get_all_queue_names :: "queue_manager \<Rightarrow> string list" where
  "get_all_queue_names qm = dict_keys (qm_queues qm)"

definition in_flight_count :: "queue_manager \<Rightarrow> nat" where
  "in_flight_count qm = length (qm_in_flight qm)"

definition get_in_flight_tasks :: "queue_manager \<Rightarrow> (string, task) dict" where
  "get_in_flight_tasks qm = qm_in_flight qm"

definition qm_get_stats :: "queue_manager \<Rightarrow> (string \<times> json) list" where
  "qm_get_stats qm =
     [(''total_enqueued'', JInt (int (total_enqueued qm))),
      (''total_dequeued'', JInt (int (total_dequeued qm))),
      (''total_acked'', JInt (int (total_acked qm))),
      (''total_nacked'', JInt (int (total_nacked qm))),
      (''total_dead_lettered'', JInt (int (total_dead_lettered qm))),
      (''in_flight'', JInt (int (length (qm_in_flight qm)))),
      (''max_retries'', JInt (max_retries qm)),
      (''queues'', JDict (map (\<lambda>(n, ts). (n, JInt (int (length ts)))) (qm_queues qm))),
      (''dlq'', JDict (dlq_get_stats (qm_dlq qm)))]"

section \<open>Reading and writing one queue\<close>

lemma put_queue_sel [simp]:
  "qm_in_flight (put_queue q ts qm) = qm_in_flight qm"
  "qm_completed (put_queue q ts qm) = qm_completed qm"
  "qm_dlq (put_queue q ts qm) = qm_dlq qm"
  "max_retries (put_queue q ts qm) = max_retries qm"
  "total_enqueued (put_queue q ts qm) = total_enqueued qm"
  "total_dequeued (put_queue q ts qm) = total_dequeued qm"
  "total_acked (put_queue q ts qm) = total_acked qm"
  "total_nacked (put_queue q ts qm) = total_nacked qm"
  "total_dead_lettered (put_queue q ts qm) = total_dead_lettered qm"
  by (simp_all add: put_queue_def)

lemma ensure_queue_sel [simp]:
  "qm_in_flight (ensure_queue q qm) = qm_in_flight qm"
  "qm_completed (ensure_queue q qm) = qm_completed qm"
  "qm_dlq (ensure_queue q qm) = qm_dlq qm"
  "max_retries (ensure_queue q qm) = max_retries qm"
  "total_enqueued (ensure_queue q qm) = total_enqueued qm"
  "total_dequeued (ensure_queue q qm) = total_dequeued qm"
  "total_acked (ensure_queue q qm) = total_acked qm"
  "total_nacked (ensure_queue q qm) = total_nacked qm"
  "total_dead_lettered (ensure_queue q qm) = total_dead_lettered qm"
  by (simp_all add: ensure_queue_def)

lemma put_ensure [simp]: "put_queue q ts (ensure_queue q qm) = put_queue q ts qm"
  by (simp add: put_queue_def ensure_queue_def)

lemma queue_of_ensure [simp]: "queue_of (ensure_queue q qm) q' = queue_of qm q'"
  by (auto simp: queue_of_def ensure_queue_def dict_get_or_def)

lemma queue_of_put [simp]: "queue_of (put_queue q ts qm) q' = (if q' = q then ts else queue_of qm q')"
  by (simp add: queue_of_def put_queue_def dict_get_or_def)

lemma queue_of_other [simp]:
  "queue_of (qm\<lparr>qm_in_flight := f\<rparr>) = queue_of qm"
  "queue_of (qm\<lparr>qm_completed := c\<rparr>) = queue_of qm"
  "queue_of (qm\<lparr>qm_dlq := d\<rparr>) = queue_of qm"
  "queue_of (qm\<lparr>total_enqueued := n\<rparr>) = queue_of qm"
  "queue_of (qm\<lparr>total_dequeued := n\<rparr>) = queue_of qm"
  "queue_of (qm\<lparr>total_acked := n\<rparr>) = queue_of qm"
  "queue_of (qm\<lparr>total_nacked := n\<rparr>) = queue_of qm"
  "queue_of (qm\<lparr>total_dead_lettered := n\<rparr>) = queue_of qm"
  by (simp_all add: queue_of_def fun_eq_iff)

lemma queue_of_init [simp]: "queue_of (qm_init r) q = []"
  by (simp add: queue_of_def qm_init_def dict_get_or_def)

text \<open>The operations in closed form: \<open>_ensure_queue\<close> disappears before an assignment.\<close>

lemma enqueue_eq:
  "enqueue tid now q p qm =
     (tid, (put_queue q (queue_of qm q @ [new_task tid q p now]) qm)
             \<lparr>total_enqueued := Suc (total_enqueued qm)\<rparr>)"
  by (simp add: enqueue_def Let_def)

lemma enqueue_recovered_eq:
  "enqueue_recovered now q tid p n qm =
     (tid, (put_queue q (queue_of qm q @ [(new_task tid q p now)\<lparr>attempts := n\<rparr>]) qm)
             \<lparr>total_enqueued := Suc (total_enqueued qm)\<rparr>)"
  by (simp add: enqueue_recovered_def Let_def)

lemma requeue_eq:
  "requeue t front qm =
     put_queue (queue_name t)
       (if front then t\<lparr>status := Pending, assigned_worker := None\<rparr> # queue_of qm (queue_name t)
        else queue_of qm (queue_name t) @ [t\<lparr>status := Pending, assigned_worker := None\<rparr>]) qm"
  by (simp add: requeue_def Let_def)

lemma requeue_by_id_eq:
  "requeue_by_id tid qm =
     (case dict_get (qm_in_flight qm) tid of
        None \<Rightarrow> (False, qm)
      | Some t \<Rightarrow> (True, requeue t True (qm\<lparr>qm_in_flight := dict_del tid (qm_in_flight qm)\<rparr>)))"
  by (simp add: requeue_by_id_def requeue_eq Let_def split: option.split)

lemma nack_finish_eq:
  "nack_finish now t qm =
     (if status t = DeadLettered
      then (Dead_lettered (task_id t) (attempts t) (queue_name t),
            qm\<lparr>qm_dlq := dlq_add now t (qm_dlq qm)\<rparr>)
      else (Requeued (task_id t) (attempts t) (max_retries qm) (queue_name t), requeue t True qm))"
  by (simp add: nack_finish_def requeue_eq Let_def)

lemma requeue_sel [simp]:
  "qm_in_flight (requeue t front qm) = qm_in_flight qm"
  "qm_completed (requeue t front qm) = qm_completed qm"
  "qm_dlq (requeue t front qm) = qm_dlq qm"
  "max_retries (requeue t front qm) = max_retries qm"
  "total_enqueued (requeue t front qm) = total_enqueued qm"
  "total_dequeued (requeue t front qm) = total_dequeued qm"
  "total_acked (requeue t front qm) = total_acked qm"
  "total_nacked (requeue t front qm) = total_nacked qm"
  "total_dead_lettered (requeue t front qm) = total_dead_lettered qm"
  by (simp_all add: requeue_eq)

section \<open>The pending tasks as a multiset\<close>

definition pending :: "queue_manager \<Rightarrow> task multiset" where
  "pending qm = mset (flat (qm_queues qm))"

lemma pending_put: "pending (put_queue q ts qm) + mset (queue_of qm q) = mset ts + pending qm"
proof (cases "dict_get (qm_queues qm) q")
  case None
  then show ?thesis
    by (simp add: pending_def put_queue_def queue_of_def dict_get_or_def mset_flat_set_new)
next
  case (Some ys)
  then show ?thesis
    by (simp add: pending_def put_queue_def queue_of_def dict_get_or_def mset_flat_set)
qed

lemma pending_append [simp]:
  "pending (put_queue q (queue_of qm q @ [t]) qm) = add_mset t (pending qm)"
  using pending_put [of q "queue_of qm q @ [t]" qm] by simp

lemma pending_push [simp]:
  "pending (put_queue q (t # queue_of qm q) qm) = add_mset t (pending qm)"
  using pending_put [of q "t # queue_of qm q" qm] by simp

lemma pending_pop: "queue_of qm q = t # ts \<Longrightarrow> pending qm = add_mset t (pending (put_queue q ts qm))"
  using pending_put [of q ts qm] by simp

lemma pending_ensure [simp]: "pending (ensure_queue q qm) = pending qm"
  by (simp add: pending_def ensure_queue_def mset_flat_set_new)

lemma pending_other [simp]:
  "pending (qm\<lparr>qm_in_flight := f\<rparr>) = pending qm"
  "pending (qm\<lparr>qm_completed := c\<rparr>) = pending qm"
  "pending (qm\<lparr>qm_dlq := d\<rparr>) = pending qm"
  "pending (qm\<lparr>total_enqueued := n\<rparr>) = pending qm"
  "pending (qm\<lparr>total_dequeued := n\<rparr>) = pending qm"
  "pending (qm\<lparr>total_acked := n\<rparr>) = pending qm"
  "pending (qm\<lparr>total_nacked := n\<rparr>) = pending qm"
  "pending (qm\<lparr>total_dead_lettered := n\<rparr>) = pending qm"
  by (simp_all add: pending_def)

lemma pending_requeue [simp]:
  "pending (requeue t front qm) = add_mset (t\<lparr>status := Pending, assigned_worker := None\<rparr>) (pending qm)"
  by (simp add: requeue_eq)

lemma queue_of_in_pending: "t \<in> set (queue_of qm q) \<Longrightarrow> t \<in># pending qm"
  by (fastforce simp: queue_of_def dict_get_or_def pending_def set_flat split: option.splits
      dest: dict_get_in [OF sym] dict_get_in)

text \<open>The queue manager is what \<open>DeadLetterQueue.retry\<close> expects.\<close>

interpretation qm_retry: retry_target requeue pending
  by unfold_locales simp

lemma retry_dead_found:
  assumes "dict_get (dlq_tasks (qm_dlq qm)) tid = Some t"
  shows "retry_dead tid qm = (True, (requeue (retry_task t) False qm)
     \<lparr>qm_dlq := (qm_dlq qm)\<lparr>dlq_tasks := dict_del tid (dlq_tasks (qm_dlq qm)),
                            dlq_total_retried := Suc (dlq_total_retried (qm_dlq qm))\<rparr>\<rparr>)"
  using qm_retry.retry_found(1) [OF assms, of qm] by (simp add: retry_dead_def)

lemma retry_dead_missing: "dict_get (dlq_tasks (qm_dlq qm)) tid = None \<Longrightarrow> retry_dead tid qm = (False, qm)"
  using qm_retry.retry_missing [of "qm_dlq qm" tid qm] by (simp add: retry_dead_def)

section \<open>Well-formed states\<close>

definition pending_ok :: "string \<Rightarrow> task \<Rightarrow> bool" where
  "pending_ok q t \<longleftrightarrow>
     queue_name t = q \<and> status t = Pending \<and> assigned_worker t = None \<and> 0 \<le> attempts t"

definition flight_ok :: "string \<Rightarrow> task \<Rightarrow> bool" where
  "flight_ok k t \<longleftrightarrow>
     task_id t = k \<and> status t = InFlight \<and> assigned_worker t \<noteq> None \<and> 1 \<le> attempts t"

definition done_ok :: "string \<Rightarrow> task \<Rightarrow> bool" where
  "done_ok k t \<longleftrightarrow> task_id t = k \<and> status t = Done \<and> 1 \<le> attempts t"

definition qm_wf :: "queue_manager \<Rightarrow> bool" where
  "qm_wf qm \<longleftrightarrow>
     dict_ok (qm_queues qm) \<and> (\<forall>(q, ts) \<in> set (qm_queues qm). \<forall>t \<in> set ts. pending_ok q t) \<and>
     dict_ok (qm_in_flight qm) \<and> (\<forall>(k, t) \<in> set (qm_in_flight qm). flight_ok k t) \<and>
     dict_ok (qm_completed qm) \<and> (\<forall>(k, t) \<in> set (qm_completed qm). done_ok k t) \<and>
     dlq_ok (qm_dlq qm)"

text \<open>Where every task is: the identifiers of the pending, in-flight, completed and
  dead-lettered tasks, with multiplicity.\<close>

definition qm_pool :: "queue_manager \<Rightarrow> string multiset" where
  "qm_pool qm =
     image_mset task_id
       (pending qm + mset (dict_values (qm_in_flight qm)) + mset (dict_values (qm_completed qm)) +
        mset (dict_values (dlq_tasks (qm_dlq qm))))"

definition qm_ok :: "queue_manager \<Rightarrow> bool" where
  "qm_ok qm \<longleftrightarrow> qm_wf qm \<and> no_dups (qm_pool qm)"

lemmas task_ok_defs = pending_ok_def flight_ok_def done_ok_def dead_task_def

lemma qm_wf_init [simp]: "qm_wf (qm_init r)"
  by (simp add: qm_wf_def qm_init_def)

lemma qm_wf_counters [simp]:
  "qm_wf (qm\<lparr>total_enqueued := n\<rparr>) = qm_wf qm"
  "qm_wf (qm\<lparr>total_dequeued := n\<rparr>) = qm_wf qm"
  "qm_wf (qm\<lparr>total_acked := n\<rparr>) = qm_wf qm"
  "qm_wf (qm\<lparr>total_nacked := n\<rparr>) = qm_wf qm"
  "qm_wf (qm\<lparr>total_dead_lettered := n\<rparr>) = qm_wf qm"
  by (simp_all add: qm_wf_def)

lemma qm_wf_put [inv_intros]:
  "qm_wf qm \<Longrightarrow> (\<And>t. t \<in> set ts \<Longrightarrow> pending_ok q t) \<Longrightarrow> qm_wf (put_queue q ts qm)"
  by (auto simp: qm_wf_def put_queue_def dict_simps)

lemma qm_wf_ensure [inv_intros]: "qm_wf qm \<Longrightarrow> qm_wf (ensure_queue q qm)"
  by (auto simp: qm_wf_def ensure_queue_def dict_simps)

lemma qm_wf_queue_of: "qm_wf qm \<Longrightarrow> t \<in> set (queue_of qm q) \<Longrightarrow> pending_ok q t"
  by (fastforce simp: qm_wf_def queue_of_def dict_get_or_def split: option.splits
      dest: dict_get_in [OF sym] dict_get_in)

lemma qm_wf_pending: "qm_wf qm \<Longrightarrow> t \<in># pending qm \<Longrightarrow> pending_ok (queue_name t) t"
  by (fastforce simp: qm_wf_def pending_def set_flat pending_ok_def)

lemma qm_wf_flight_set:
  "qm_wf qm \<Longrightarrow> flight_ok k t \<Longrightarrow> qm_wf (qm\<lparr>qm_in_flight := dict_set k t (qm_in_flight qm)\<rparr>)"
  by (auto simp: qm_wf_def dict_simps)

lemma qm_wf_flight_del [inv_intros]:
  "qm_wf qm \<Longrightarrow> qm_wf (qm\<lparr>qm_in_flight := dict_del k (qm_in_flight qm)\<rparr>)"
  by (auto simp: qm_wf_def dict_simps)

lemma qm_wf_completed_set:
  "qm_wf qm \<Longrightarrow> done_ok k t \<Longrightarrow> qm_wf (qm\<lparr>qm_completed := dict_set k t (qm_completed qm)\<rparr>)"
  by (auto simp: qm_wf_def dict_simps)

lemma qm_wf_dlq: "qm_wf qm \<Longrightarrow> dlq_ok d \<Longrightarrow> qm_wf (qm\<lparr>qm_dlq := d\<rparr>)"
  by (simp add: qm_wf_def)

lemma qm_wf_flightD: "qm_wf qm \<Longrightarrow> dict_get (qm_in_flight qm) k = Some t \<Longrightarrow> flight_ok k t"
  by (auto simp: qm_wf_def dest!: dict_get_in)

lemma qm_wf_sel:
  "qm_wf qm \<Longrightarrow> dlq_ok (qm_dlq qm)"
  "qm_wf qm \<Longrightarrow> dict_ok (qm_in_flight qm)"
  "qm_wf qm \<Longrightarrow> dict_ok (qm_completed qm)"
  "qm_wf qm \<Longrightarrow> dict_ok (qm_queues qm)"
  by (simp_all add: qm_wf_def)

lemma qm_wf_add [inv_intros]:
  assumes "qm_wf qm" and "pending_ok q t"
  shows "qm_wf (put_queue q (queue_of qm q @ [t]) qm)"
    and "qm_wf (put_queue q (t # queue_of qm q) qm)"
  using assms qm_wf_queue_of [OF assms(1)] by (auto intro!: qm_wf_put)

lemma qm_wf_requeue [inv_intros]: "qm_wf qm \<Longrightarrow> 0 \<le> attempts t \<Longrightarrow> qm_wf (requeue t front qm)"
  by (simp add: requeue_eq qm_wf_add pending_ok_def)

subsection \<open>Every operation keeps the containers well-formed\<close>

lemma qm_wf_enqueue [inv_intros]: "qm_wf qm \<Longrightarrow> qm_wf (snd (enqueue tid now q p qm))"
  by (simp add: enqueue_eq qm_wf_add pending_ok_def)

lemma qm_wf_enqueue_recovered [inv_intros]:
  "qm_wf qm \<Longrightarrow> 0 \<le> n \<Longrightarrow> qm_wf (snd (enqueue_recovered now q tid p n qm))"
  by (simp add: enqueue_recovered_eq qm_wf_add pending_ok_def)

lemma qm_wf_pop_task [inv_intros]:
  assumes "qm_wf qm"
  shows "qm_wf (snd (pop_task q w qm))"
proof (cases "queue_of qm q")
  case Nil
  with assms show ?thesis by (simp add: pop_task_def)
next
  case (Cons t ts)
  have ok: "pending_ok q u" if "u \<in> set (t # ts)" for u
    using qm_wf_queue_of [OF assms, of u q] that Cons by simp
  have "flight_ok (task_id t) (take_in_flight w t)"
    using ok [of t] by (simp add: task_ok_defs take_in_flight_def)
  moreover have "qm_wf (put_queue q ts qm)"
    using assms ok by (simp add: qm_wf_put)
  ultimately have "qm_wf ((put_queue q ts qm)\<lparr>qm_in_flight :=
      dict_set (task_id t) (take_in_flight w t) (qm_in_flight (put_queue q ts qm))\<rparr>)"
    by (rule qm_wf_flight_set [rotated])
  then show ?thesis
    using Cons by (simp add: pop_task_def Let_def take_in_flight_def)
qed

lemma qm_wf_dequeue [inv_intros]: "qm_wf qm \<Longrightarrow> qm_wf (snd (dequeue q w qm))"
  by (simp add: dequeue_def Let_def qm_wf_pop_task qm_wf_ensure split: option.split)

lemma qm_wf_acknowledge [inv_intros]:
  assumes "qm_wf qm"
  shows "qm_wf (snd (acknowledge tid qm))"
proof (cases "dict_get (qm_in_flight qm) tid")
  case None
  with assms show ?thesis by (simp add: acknowledge_def)
next
  case (Some t)
  have "done_ok tid (t\<lparr>status := Done\<rparr>)"
    using qm_wf_flightD [OF assms Some] by (simp add: task_ok_defs)
  from qm_wf_completed_set [OF qm_wf_flight_del [OF assms, of tid] this] Some
  show ?thesis by (simp add: acknowledge_def)
qed

lemma qm_wf_nack_take [inv_intros]: "qm_wf qm \<Longrightarrow> qm_wf (snd (nack_take tid qm))"
  using qm_wf_flight_del [of qm tid] by (simp add: nack_take_def Let_def split: option.split)

lemma nack_take_attempts:
  "qm_wf qm \<Longrightarrow> nack_take tid qm = (Some t, qm') \<Longrightarrow> task_id t = tid \<and> 1 \<le> attempts t"
  by (auto simp: nack_take_def Let_def task_ok_defs split: option.splits if_splits
      dest: qm_wf_flightD)

lemma qm_wf_nack_finish [inv_intros]:
  "qm_wf qm \<Longrightarrow> 0 \<le> attempts t \<Longrightarrow> qm_wf (snd (nack_finish now t qm))"
  by (simp add: nack_finish_eq qm_wf_dlq dlq_ok_add qm_wf_sel qm_wf_requeue)

lemma qm_wf_negative_acknowledge [inv_intros]:
  assumes "qm_wf qm"
  shows "qm_wf (snd (negative_acknowledge now tid qm))"
proof (cases "nack_take tid qm")
  case (Pair r qm1)
  have "qm_wf qm1" using qm_wf_nack_take [OF assms, of tid] Pair by simp
  moreover have "0 \<le> attempts t" if "r = Some t" for t
    using nack_take_attempts [OF assms, of tid t qm1] Pair that by simp
  ultimately show ?thesis
    using qm_wf_nack_finish [of qm1]
    by (auto simp: negative_acknowledge_def Pair split: option.split prod.split) (metis snd_conv)
qed

lemma qm_wf_requeue_by_id [inv_intros]:
  assumes "qm_wf qm"
  shows "qm_wf (snd (requeue_by_id tid qm))"
proof -
  have "0 \<le> attempts t" if "dict_get (qm_in_flight qm) tid = Some t" for t
    using qm_wf_flightD [OF assms that] by (simp add: task_ok_defs)
  then show ?thesis
    using assms by (simp add: requeue_by_id_eq qm_wf_requeue qm_wf_flight_del split: option.split)
qed

lemma qm_wf_retry_dead [inv_intros]:
  assumes "qm_wf qm"
  shows "qm_wf (snd (retry_dead tid qm))"
proof -
  have "dlq_ok (fst (snd (dlq_retry requeue tid (qm_dlq qm) qm)))"
    by (rule dlq_ok_retry) (rule qm_wf_sel [OF assms])
  moreover have "qm_wf (snd (snd (dlq_retry requeue tid (qm_dlq qm) qm)))"
    using assms by (simp add: dlq_retry_def dlq_retry_put_def Let_def dlq_take_def qm_wf_requeue retry_task_def split: option.split)
  ultimately show ?thesis
    by (auto simp: retry_dead_def split: prod.split intro: qm_wf_dlq)
qed

lemma qm_wf_reset [inv_intros]: "qm_wf qm \<Longrightarrow> qm_wf (qm_reset qm)"
  by (simp add: qm_wf_def qm_reset_def dlq_ok_def)

section \<open>Conservation of tasks\<close>

lemma qm_pool_counters [simp]:
  "qm_pool (qm\<lparr>total_enqueued := n\<rparr>) = qm_pool qm"
  "qm_pool (qm\<lparr>total_dequeued := n\<rparr>) = qm_pool qm"
  "qm_pool (qm\<lparr>total_acked := n\<rparr>) = qm_pool qm"
  "qm_pool (qm\<lparr>total_nacked := n\<rparr>) = qm_pool qm"
  "qm_pool (qm\<lparr>total_dead_lettered := n\<rparr>) = qm_pool qm"
  by (simp_all add: qm_pool_def)

lemma qm_pool_init [simp]: "qm_pool (qm_init r) = {#}"
  by (simp add: qm_pool_def qm_init_def pending_def dlq_init_def)

lemma qm_pool_ensure [simp]: "qm_pool (ensure_queue q qm) = qm_pool qm"
  by (simp add: qm_pool_def)

lemma qm_pool_requeue [simp]: "qm_pool (requeue t front qm) = add_mset (task_id t) (qm_pool qm)"
  by (simp add: qm_pool_def)

lemma qm_pool_enqueue [simp]: "qm_pool (snd (enqueue tid now q p qm)) = add_mset tid (qm_pool qm)"
  by (simp add: qm_pool_def enqueue_eq)

lemma qm_pool_enqueue_recovered [simp]:
  "qm_pool (snd (enqueue_recovered now q tid p n qm)) = add_mset tid (qm_pool qm)"
  by (simp add: qm_pool_def enqueue_recovered_eq)

text \<open>A task held in one container is in no other.\<close>

lemma qm_pool_pending: "t \<in># pending qm \<Longrightarrow> task_id t \<in># qm_pool qm"
  by (simp add: qm_pool_def)

lemma in_values: "dict_get d k = Some t \<Longrightarrow> t \<in># mset (dict_values d)"
  by (force dest: dict_get_in)

lemma qm_ok_flight_pool:
  "qm_wf qm \<Longrightarrow> dict_get (qm_in_flight qm) k = Some t \<Longrightarrow>
     qm_pool qm = add_mset k (qm_pool (qm\<lparr>qm_in_flight := dict_del k (qm_in_flight qm)\<rparr>))"
  using mset_values_del [of "qm_in_flight qm" k t] qm_wf_flightD [of qm k t]
  by (simp add: qm_pool_def qm_wf_sel task_ok_defs)

lemma qm_fresh_completed:
  assumes "qm_wf qm" and "k \<notin># qm_pool qm"
  shows "dict_get (qm_completed qm) k = None"
proof (rule ccontr)
  assume "dict_get (qm_completed qm) k \<noteq> None"
  then obtain t where t: "dict_get (qm_completed qm) k = Some t" by blast
  with assms(1) have "task_id t = k"
    by (auto simp: qm_wf_def done_ok_def dest!: dict_get_in)
  with in_values [OF t] assms(2) show False by (auto simp: qm_pool_def)
qed

lemma qm_fresh_dlq:
  assumes "qm_wf qm" and "k \<notin># qm_pool qm"
  shows "dict_get (dlq_tasks (qm_dlq qm)) k = None"
proof (rule ccontr)
  assume "dict_get (dlq_tasks (qm_dlq qm)) k \<noteq> None"
  then obtain t where t: "dict_get (dlq_tasks (qm_dlq qm)) k = Some t" by blast
  then have "task_id t = k"
    using dlq_ok_getD [OF qm_wf_sel(1) [OF assms(1)]] by (simp add: dead_task_def)
  with in_values [OF t] assms(2) show False by (auto simp: qm_pool_def)
qed

lemma qm_fresh_flight:
  assumes "qm_wf qm" and "k \<notin># qm_pool qm"
  shows "dict_get (qm_in_flight qm) k = None"
  using assms qm_ok_flight_pool [OF assms(1), of k] by (cases "dict_get (qm_in_flight qm) k") auto

lemma qm_pool_completed_set:
  assumes "qm_wf qm" and "task_id t \<notin># qm_pool qm"
  shows "qm_pool (qm\<lparr>qm_completed := dict_set (task_id t) t (qm_completed qm)\<rparr>) =
         add_mset (task_id t) (qm_pool qm)"
  using mset_values_new [OF qm_fresh_completed [OF assms], of t] by (simp add: qm_pool_def)

lemma qm_pool_dlq_add:
  assumes "qm_wf qm" and "task_id t \<notin># qm_pool qm"
  shows "qm_pool (qm\<lparr>qm_dlq := dlq_add now t (qm_dlq qm)\<rparr>) = add_mset (task_id t) (qm_pool qm)"
  using mset_values_new [OF qm_fresh_dlq [OF assms], of "dlq_mark now t"]
  by (simp add: qm_pool_def dlq_add_def dlq_mark_def)

lemma qm_pool_pop_task [simp]:
  assumes "qm_ok qm"
  shows "qm_pool (snd (pop_task q w qm)) = qm_pool qm"
proof (cases "queue_of qm q")
  case Nil
  then show ?thesis by (simp add: pop_task_def)
next
  case (Cons t ts)
  have pend: "pending qm = add_mset t (pending (put_queue q ts qm))"
    by (rule pending_pop [OF Cons])
  then have pool: "qm_pool qm = add_mset (task_id t) (qm_pool (put_queue q ts qm))"
    by (simp add: qm_pool_def)
  have wf: "qm_wf (put_queue q ts qm)"
    using assms Cons qm_wf_queue_of [of qm _ q] by (auto simp: qm_ok_def intro!: qm_wf_put)
  have "dict_get (qm_in_flight (put_queue q ts qm)) (task_id t) = None"
    using assms pool by (intro qm_fresh_flight [OF wf]) (simp add: qm_ok_def)
  then show ?thesis
    using Cons pend mset_values_new [of "qm_in_flight qm" "task_id t" "take_in_flight w t"]
    by (simp add: pop_task_def Let_def qm_pool_def take_in_flight_def)
qed

lemma qm_ok_pending_flight:
  assumes "qm_ok qm" and "t \<in># pending qm"
  shows "dict_get (qm_in_flight qm) (task_id t) = None"
proof (rule ccontr)
  assume "dict_get (qm_in_flight qm) (task_id t) \<noteq> None"
  then obtain u where "dict_get (qm_in_flight qm) (task_id t) = Some u" by blast
  from qm_ok_flight_pool [OF _ this] assms show False
    by (auto simp: qm_ok_def qm_pool_def)
qed

lemma qm_ok_ensure [inv_intros]: "qm_ok qm \<Longrightarrow> qm_ok (ensure_queue q qm)"
  by (simp add: qm_ok_def qm_wf_ensure)

lemma qm_pool_dequeue [simp]: "qm_ok qm \<Longrightarrow> qm_pool (snd (dequeue q w qm)) = qm_pool qm"
  by (simp add: dequeue_def Let_def qm_ok_ensure split: option.split)

lemma qm_pool_acknowledge [simp]:
  assumes "qm_ok qm"
  shows "qm_pool (snd (acknowledge tid qm)) = qm_pool qm"
proof (cases "dict_get (qm_in_flight qm) tid")
  case None
  then show ?thesis by (simp add: acknowledge_def)
next
  case (Some t)
  let ?qm = "qm\<lparr>qm_in_flight := dict_del tid (qm_in_flight qm)\<rparr>" and ?t = "t\<lparr>status := Done\<rparr>"
  have wf: "qm_wf qm" using assms by (simp add: qm_ok_def)
  have pool: "qm_pool qm = add_mset tid (qm_pool ?qm)"
    by (rule qm_ok_flight_pool [OF wf Some])
  have id: "task_id ?t = tid" using qm_wf_flightD [OF wf Some] by (simp add: task_ok_defs)
  have "task_id ?t \<notin># qm_pool ?qm" using assms pool id by (simp add: qm_ok_def)
  from qm_pool_completed_set [OF qm_wf_flight_del [OF wf] this] show ?thesis
    using Some pool id by (simp add: acknowledge_def)
qed

lemma nack_take_pool:
  "qm_wf qm \<Longrightarrow> nack_take tid qm = (Some t, qm') \<Longrightarrow> qm_pool qm = add_mset (task_id t) (qm_pool qm')"
  using qm_ok_flight_pool [of qm tid] qm_wf_flightD [of qm tid]
  by (auto simp: nack_take_def Let_def task_ok_defs split: option.splits if_splits)

lemma nack_finish_pool:
  "qm_wf qm \<Longrightarrow> task_id t \<notin># qm_pool qm \<Longrightarrow>
     qm_pool (snd (nack_finish now t qm)) = add_mset (task_id t) (qm_pool qm)"
  by (simp add: nack_finish_eq qm_pool_dlq_add)

lemma qm_pool_negative_acknowledge [simp]:
  assumes "qm_ok qm"
  shows "qm_pool (snd (negative_acknowledge now tid qm)) = qm_pool qm"
proof (cases "nack_take tid qm")
  case (Pair r qm1)
  show ?thesis
  proof (cases r)
    case None
    with Pair show ?thesis
      by (auto simp: negative_acknowledge_def nack_take_def Let_def split: option.splits if_splits)
  next
    case (Some t)
    have pool: "qm_pool qm = add_mset (task_id t) (qm_pool qm1)"
      using assms Pair Some by (auto simp: qm_ok_def intro: nack_take_pool)
    have "qm_wf qm1" and "task_id t \<notin># qm_pool qm1"
      using assms pool qm_wf_nack_take [of qm tid] Pair by (auto simp: qm_ok_def)
    then have "qm_pool (snd (nack_finish now t qm1)) = qm_pool qm"
      by (simp add: nack_finish_pool pool)
    then show ?thesis
      using Pair Some by (auto simp: negative_acknowledge_def split: prod.split)
  qed
qed

lemma qm_pool_requeue_by_id [simp]:
  assumes "qm_wf qm"
  shows "qm_pool (snd (requeue_by_id tid qm)) = qm_pool qm"
  using qm_ok_flight_pool [OF assms, of tid] qm_wf_flightD [OF assms, of tid]
  by (auto simp: requeue_by_id_eq task_ok_defs split: option.split)

lemma qm_pool_retry_dead [simp]:
  assumes "qm_wf qm"
  shows "qm_pool (snd (retry_dead tid qm)) = qm_pool qm"
proof -
  obtain b d qm1 where r: "dlq_retry requeue tid (qm_dlq qm) qm = (b, d, qm1)"
    by (metis prod_cases3)
  have "\<forall>(k, t) \<in> set (dlq_tasks (qm_dlq qm)). task_id t = k"
    using qm_wf_sel(1) [OF assms] by (auto simp: dlq_ok_def dead_task_def)
  from qm_retry.retry_conserves [OF dlq_ok_dict [OF qm_wf_sel(1) [OF assms]] this r]
  have "image_mset task_id (mset (dict_values (dlq_tasks d))) + image_mset task_id (pending qm1) =
      image_mset task_id (mset (dict_values (dlq_tasks (qm_dlq qm)))) + image_mset task_id (pending qm)" .
  moreover have "qm_in_flight qm1 = qm_in_flight qm" "qm_completed qm1 = qm_completed qm"
    using r by (auto simp: dlq_retry_def dlq_retry_put_def Let_def split: prod.splits option.splits)
  ultimately show ?thesis
    by (simp add: retry_dead_def r qm_pool_def add_ac)
qed

text \<open>Conservation and the container invariant give the full invariant.\<close>

lemma qm_ok_init [simp]: "qm_ok (qm_init r)"
  by (simp add: qm_ok_def)

lemma qm_ok_ops [inv_intros]:
  assumes "qm_ok qm"
  shows "tid \<notin># qm_pool qm \<Longrightarrow> qm_ok (snd (enqueue tid now q p qm))"
    and "tid \<notin># qm_pool qm \<Longrightarrow> 0 \<le> n \<Longrightarrow> qm_ok (snd (enqueue_recovered now q tid p n qm))"
    and "qm_ok (snd (dequeue q w qm))"
    and "qm_ok (snd (acknowledge tid qm))"
    and "qm_ok (snd (negative_acknowledge now tid qm))"
    and "qm_ok (snd (requeue_by_id tid qm))"
    and "qm_ok (snd (retry_dead tid qm))"
  using assms by (simp_all add: qm_ok_def inv_intros)

lemma qm_ok_reset [inv_intros]: "qm_wf qm \<Longrightarrow> qm_ok (qm_reset qm)"
  by (simp add: qm_ok_def qm_wf_reset) (simp add: qm_pool_def qm_reset_def pending_def)

section \<open>What \<open>dequeue\<close> does\<close>

lemma ensure_queue_id: "queue_of qm q \<noteq> [] \<Longrightarrow> ensure_queue q qm = qm"
  by (simp add: ensure_queue_def queue_of_def dict_get_or_def split: option.splits)

lemma first_nonempty_Some:
  assumes "dict_ok d" and "first_nonempty d = Some q"
  shows "\<exists>t ts. dict_get d q = Some (t # ts)"
proof -
  have "\<exists>t ts. (q, t # ts) \<in> set d"
    using assms(2) by (induction d rule: first_nonempty.induct) (auto simp: neq_Nil_conv split: if_splits)
  then show ?thesis using assms(1) by (auto simp: dict_get_content)
qed

lemma first_nonempty_None: "first_nonempty d = None \<longleftrightarrow> flat d = []"
  by (induction d rule: first_nonempty.induct) auto

text \<open>Either no task is available, or the head of one queue goes in flight.\<close>

lemma dequeue_cases:
  assumes "dict_ok (qm_queues qm)"
  obtains (empty) "fst (dequeue q w qm) = None"
      "snd (dequeue q w qm) = qm \<or> snd (dequeue q w qm) = ensure_queue q qm"
  | (found) q' t ts where "queue_of qm q' = t # ts" and "q' = q \<or> q = ''*''"
      "dequeue q w qm =
         (Some (view_of (take_in_flight w t)),
          (put_queue q' ts qm)\<lparr>qm_in_flight := dict_set (task_id t) (take_in_flight w t) (qm_in_flight qm),
                               total_dequeued := Suc (total_dequeued qm)\<rparr>)"
proof -
  have pop: "pop_task q' w qm =
       (Some (view_of (take_in_flight w t)),
        (put_queue q' ts qm)\<lparr>qm_in_flight := dict_set (task_id t) (take_in_flight w t) (qm_in_flight qm),
                             total_dequeued := Suc (total_dequeued qm)\<rparr>)"
    if "queue_of qm q' = t # ts" for q' t ts
    using that by (simp add: pop_task_def Let_def take_in_flight_def)
  show thesis
  proof (cases "q = ''*''")
    case star: True
    show thesis
    proof (cases "first_nonempty (qm_queues qm)")
      case None
      with star empty show thesis by (simp add: dequeue_def)
    next
      case (Some target)
      then obtain t ts where "queue_of qm target = t # ts"
        using first_nonempty_Some [OF assms Some] by (auto simp: queue_of_def dict_get_or_def)
      with star Some empty found pop show thesis
        by (cases "target = []") (auto simp: dequeue_def)
    qed
  next
    case False
    show thesis
    proof (cases "queue_of qm q")
      case Nil
      with False empty show thesis by (simp add: dequeue_def Let_def)
    next
      case (Cons t ts)
      then have "dequeue q w qm = pop_task q w qm"
        using False by (simp add: dequeue_def Let_def ensure_queue_id)
      with found Cons pop [OF Cons] show thesis by auto
    qed
  qed
qed

lemma dequeue_frame [simp]:
  "qm_completed (snd (dequeue q w qm)) = qm_completed qm"
  "qm_dlq (snd (dequeue q w qm)) = qm_dlq qm"
  "max_retries (snd (dequeue q w qm)) = max_retries qm"
  "total_enqueued (snd (dequeue q w qm)) = total_enqueued qm"
  "total_acked (snd (dequeue q w qm)) = total_acked qm"
  "total_nacked (snd (dequeue q w qm)) = total_nacked qm"
  "total_dead_lettered (snd (dequeue q w qm)) = total_dead_lettered qm"
  by (simp_all add: dequeue_def pop_task_def Let_def split: option.split list.split)

text \<open>The dequeue counter counts the in-flight registrations.\<close>

lemma dequeue_balance:
  assumes "qm_ok qm"
  shows "total_dequeued (snd (dequeue q w qm)) + length (qm_in_flight qm) =
         total_dequeued qm + length (qm_in_flight (snd (dequeue q w qm)))"
proof -
  have wf: "qm_wf qm" and dups: "no_dups (qm_pool qm)" using assms by (auto simp: qm_ok_def)
  show ?thesis
  proof (rule dequeue_cases [OF qm_wf_sel(4) [OF wf], of q w])
    assume "snd (dequeue q w qm) = qm \<or> snd (dequeue q w qm) = ensure_queue q qm"
    then show ?thesis by auto
  next
    fix q' t ts
    assume queue: "queue_of qm q' = t # ts"
      and eq: "dequeue q w qm =
         (Some (view_of (take_in_flight w t)),
          (put_queue q' ts qm)\<lparr>qm_in_flight := dict_set (task_id t) (take_in_flight w t) (qm_in_flight qm),
                               total_dequeued := Suc (total_dequeued qm)\<rparr>)"
    have "t \<in># pending qm" by (rule queue_of_in_pending [of t qm q']) (simp add: queue)
    have "dict_get (qm_in_flight qm) (task_id t) = None"
    proof (rule ccontr)
      assume "dict_get (qm_in_flight qm) (task_id t) \<noteq> None"
      then obtain u where "dict_get (qm_in_flight qm) (task_id t) = Some u" by blast
      from qm_ok_flight_pool [OF wf this] dups \<open>t \<in># pending qm\<close> show False
        by (simp add: qm_pool_def)
    qed
    then show ?thesis by (simp add: eq length_dict_set)
  qed
qed

section \<open>Order of delivery\<close>

text \<open>Successive calls: the identifiers handed out by \<open>n\<close> dequeues of one queue, and a batch of
  enqueues.\<close>

fun dequeue_many :: "nat \<Rightarrow> string \<Rightarrow> json \<Rightarrow> queue_manager \<Rightarrow> string list \<times> queue_manager" where
  "dequeue_many 0 q w qm = ([], qm)"
| "dequeue_many (Suc n) q w qm =
     (case dequeue q w qm of
        (None, qm1) \<Rightarrow> ([], qm1)
      | (Some v, qm1) \<Rightarrow> (case dequeue_many n q w qm1 of (ids, qm2) \<Rightarrow> (tv_task_id v # ids, qm2)))"

fun enqueue_many :: "(string \<times> json) list \<Rightarrow> time \<Rightarrow> string \<Rightarrow> queue_manager \<Rightarrow> queue_manager" where
  "enqueue_many [] now q qm = qm"
| "enqueue_many ((tid, p) # xs) now q qm = enqueue_many xs now q (snd (enqueue tid now q p qm))"

lemma dequeue_head:
  assumes "q \<noteq> ''*''" and "queue_of qm q = t # ts"
  shows "\<exists>qm'. dequeue q w qm = (Some (view_of (take_in_flight w t)), qm') \<and> queue_of qm' q = ts \<and>
           (\<forall>q'. q' \<noteq> q \<longrightarrow> queue_of qm' q' = queue_of qm q')"
  using assms by (simp add: dequeue_def pop_task_def Let_def ensure_queue_id)

lemma dequeue_many_order:
  "q \<noteq> ''*'' \<Longrightarrow> n \<le> length (queue_of qm q) \<Longrightarrow>
     fst (dequeue_many n q w qm) = map task_id (take n (queue_of qm q))"
proof (induction n arbitrary: qm)
  case 0
  then show ?case by simp
next
  case (Suc n)
  then obtain t ts where queue: "queue_of qm q = t # ts" by (cases "queue_of qm q") auto
  obtain qm' where deq: "dequeue q w qm = (Some (view_of (take_in_flight w t)), qm')" and rest: "queue_of qm' q = ts"
    using dequeue_head [OF Suc.prems(1) queue, of w] by blast
  then show ?case
    using Suc.IH [of qm'] Suc.prems queue
    by (simp add: view_of_def take_in_flight_def case_prod_unfold)
qed

lemma enqueue_many_order:
  "map task_id (queue_of (enqueue_many xs now q qm) q) = map task_id (queue_of qm q) @ map fst xs"
proof (induction xs arbitrary: qm)
  case (Cons x xs)
  obtain tid p where "x = (tid, p)" by fastforce
  then show ?case by (simp add: Cons.IH enqueue_eq)
qed simp

section \<open>Properties\<close>

text \<open>
  C13. Each queue is first in, first out. Enqueue any batch of tasks on a queue (not the wildcard
  name), then dequeue as many times as there are waiting tasks: the tasks come out in the order
  in which they stood and were added, each exactly once.
\<close>

theorem fifo_order:
  assumes "q \<noteq> ''*''"
  shows "fst (dequeue_many (length (queue_of qm q) + length xs) q w (enqueue_many xs now q qm)) =
         map task_id (queue_of qm q) @ map fst xs"
proof -
  let ?qs = "queue_of (enqueue_many xs now q qm) q"
  have ids: "map task_id ?qs = map task_id (queue_of qm q) @ map fst xs" by (rule enqueue_many_order)
  then have "length ?qs = length (queue_of qm q) + length xs" by (metis length_append length_map)
  then show ?thesis using dequeue_many_order [OF assms, of "length ?qs" "enqueue_many xs now q qm" w] ids by simp
qed

theorem fifo_order_witness:
  "fst (dequeue_many 2 ''q'' (JStr ''w'') (enqueue_many [(''a'', JNull), (''b'', JNull)] 0 ''q'' (qm_init 3))) = [''a'', ''b'']"
  using fifo_order [of "''q''" "qm_init 3" "[(''a'', JNull), (''b'', JNull)]"  "JStr ''w''" 0] by (simp add: numeral_2_eq_2)

text \<open>
  C7. The retry policy. A negative acknowledgement of a task in flight removes it from the
  in-flight registry; below the retry limit it goes back to the very front of its own queue, pending
  and unassigned, with its attempt count kept; at or above the limit it lands in the dead letter
  queue and its queue is untouched. An unknown identifier changes nothing.
\<close>

theorem nack_policy:
  assumes "qm_ok qm"
  shows "case dict_get (qm_in_flight qm) tid of
           None \<Rightarrow> negative_acknowledge now tid qm = (None, qm)
         | Some t \<Rightarrow>
             dict_get (qm_in_flight (snd (negative_acknowledge now tid qm))) tid = None \<and>
             (if attempts t < max_retries qm
              then fst (negative_acknowledge now tid qm) =
                     Some (Requeued tid (attempts t) (max_retries qm) (queue_name t)) \<and>
                   queue_of (snd (negative_acknowledge now tid qm)) (queue_name t) =
                     t\<lparr>status := Pending, assigned_worker := None\<rparr> # queue_of qm (queue_name t) \<and>
                   qm_dlq (snd (negative_acknowledge now tid qm)) = qm_dlq qm
              else fst (negative_acknowledge now tid qm) =
                     Some (Dead_lettered tid (attempts t) (queue_name t)) \<and>
                   dict_get (dlq_tasks (qm_dlq (snd (negative_acknowledge now tid qm)))) tid =
                     Some (dlq_mark now t) \<and>
                   qm_queues (snd (negative_acknowledge now tid qm)) = qm_queues qm)"
proof (cases "dict_get (qm_in_flight qm) tid")
  case None
  then show ?thesis by (simp add: negative_acknowledge_def nack_take_def)
next
  case (Some t)
  have "flight_ok tid t" using assms Some qm_wf_flightD [of qm tid t] by (simp add: qm_ok_def)
  then show ?thesis
    using Some
    by (auto simp: negative_acknowledge_def nack_take_def nack_finish_eq Let_def flight_ok_def requeue_eq
        dlq_add_def dlq_mark_def)
qed

definition flying_manager :: queue_manager where
  "flying_manager = snd (dequeue ''q'' (JStr ''w'') (snd (enqueue ''t'' 0 ''q'' JNull (qm_init 1))))"

lemma flying_manager_facts:
  "qm_ok flying_manager" "max_retries flying_manager = 1"
  "dict_get (qm_in_flight flying_manager) ''t'' = Some (take_in_flight (JStr ''w'') (new_task ''t'' ''q'' JNull 0))"
proof -
  show "qm_ok flying_manager" by (simp add: flying_manager_def inv_intros)
qed (simp_all add: flying_manager_def enqueue_eq qm_init_def dequeue_def Let_def ensure_queue_id pop_task_def put_queue_def queue_of_def
    dict_get_or_def ensure_queue_def take_in_flight_def)

theorem nack_policy_witness:
  "fst (negative_acknowledge 5 ''t'' flying_manager) = Some (Dead_lettered ''t'' 1 ''q'')"
  using nack_policy [OF flying_manager_facts(1), of 5 "''t''"] flying_manager_facts(2,3)
  by (simp add: take_in_flight_def)

lemma first_nonempty_dropWhile:
  "first_nonempty d = (case dropWhile (\<lambda>(_, ts). ts = []) d of [] \<Rightarrow> None | p # _ \<Rightarrow> Some (fst p))"
  by (induction d rule: first_nonempty.induct) auto

lemma dropWhile_empty_head:
  "dropWhile (\<lambda>(_, ts). ts = []) d = (q, dq) # rest \<Longrightarrow> dq \<noteq> [] \<and> (q, dq) \<in> set d"
  by (induction d) (auto split: if_splits)

text \<open>
  C29. The wildcard consumer. On a well-formed manager a dequeue from \<open>"*"\<close> looks at the queues in
  creation order and skips the empty ones. When none is left nothing is handed out and nothing
  changes. Otherwise the head of the first queue left is handed out, leaves that queue, is
  recorded in flight and counted, and no other queue changes; only when that queue has the empty
  name does the code take it for "none found". So while no queue has the empty name, the
  consumer comes back empty-handed exactly when no task is pending at all.
\<close>

theorem wildcard_dequeue:
  assumes "qm_ok qm"
  shows "dequeue ''*'' w qm =
           (case dropWhile (\<lambda>(_, ts). ts = []) (qm_queues qm) of
              [] \<Rightarrow> (None, qm)
            | (q, dq) # _ \<Rightarrow>
                if q = [] then (None, qm)
                else (Some (view_of (take_in_flight w (hd dq))),
                      qm\<lparr>qm_queues := dict_set q (tl dq) (qm_queues qm),
                         qm_in_flight := dict_set (task_id (hd dq)) (take_in_flight w (hd dq)) (qm_in_flight qm),
                         total_dequeued := Suc (total_dequeued qm)\<rparr>))
         \<and> ([] \<notin> set (get_all_queue_names qm) \<longrightarrow>
              (fst (dequeue ''*'' w qm) = None \<longleftrightarrow> pending qm = {#}))"
proof (cases "dropWhile (\<lambda>(_, ts). ts = []) (qm_queues qm)")
  case Nil
  then have none: "first_nonempty (qm_queues qm) = None" by (simp only: first_nonempty_dropWhile list.case)
  then have "pending qm = {#}" by (simp add: pending_def first_nonempty_None)
  then show ?thesis using none by (simp add: dequeue_def Nil del: dropWhile_eq_Nil_conv)
next
  case (Cons p rest)
  obtain q dq where p: "p = (q, dq)" by fastforce
  then obtain t ts where dq: "dq = t # ts" and mem: "(q, t # ts) \<in> set (qm_queues qm)"
    using dropWhile_empty_head [of "qm_queues qm" q dq rest] Cons by (cases dq) auto
  then have queue: "queue_of qm q = t # ts"
    using assms dict_get_content [of "qm_queues qm" q "t # ts"]
    by (simp add: queue_of_def dict_get_or_def qm_ok_def qm_wf_sel)
  moreover have "first_nonempty (qm_queues qm) = Some q"
    using Cons p by (simp add: first_nonempty_dropWhile)
  moreover have "pending qm \<noteq> {#}" using queue_of_in_pending [of t qm q] queue by auto
  moreover have "q \<in> set (get_all_queue_names qm)" using mem by (force simp: get_all_queue_names_def)
  ultimately show ?thesis
    using Cons p dq by (auto simp: dequeue_def pop_task_def Let_def put_queue_def take_in_flight_def)
qed

text \<open>Two queues: the first was emptied again, so the wildcard finds the second.\<close>

definition two_queues :: queue_manager where
  "two_queues = snd (enqueue ''t2'' 0 ''b'' JNull (snd (dequeue ''a'' (JStr ''w'')
                 (snd (enqueue ''t1'' 0 ''a'' JNull (qm_init 3))))))"

lemma two_queues_ok: "qm_ok two_queues"
  by (simp add: two_queues_def inv_intros)

theorem wildcard_dequeue_witness:
  "fst (dequeue ''*'' (JStr ''w'') two_queues) =
     Some (view_of (take_in_flight (JStr ''w'') (new_task ''t2'' ''b'' JNull 0)))"
proof -
  have "qm_queues two_queues = [(''a'', []), (''b'', [new_task ''t2'' ''b'' JNull 0])]"
    by (simp add: two_queues_def enqueue_eq dequeue_def pop_task_def Let_def put_queue_def queue_of_def
        dict_get_or_def ensure_queue_def qm_init_def)
  then show ?thesis using wildcard_dequeue [OF two_queues_ok, of "JStr ''w''"] by simp
qed

end
