(* ===== verification/Task_Lifecycle.thy ===== *)
theory Task_Lifecycle
  imports Queue_Manager
begin

text \<open>
  The life of tasks under every interleaving of broker coroutines. The step relation
  \<open>lc_step\<close> has one rule per critical section of \<open>QueueManager\<close> and \<open>DeadLetterQueue\<close>:
  \<open>negative_acknowledge\<close> and \<open>retry\<close> release the lock between taking a task and putting it
  back, so other sections may run in between while the task is only held by a coroutine's
  local variable (\<open>lc_nacking\<close>, \<open>lc_retrying\<close>). The remaining fields are history variables that
  no section reads: the identifiers ever enqueued, the ones an operator discarded, and a log of
  what the sections reported to their callers, newest first. The theorems: no task is ever
  lost or duplicated, every statistics counter is the number of events it names, and a task is
  delivered at most \<open>max_retries\<close> times, plus once for every eviction.
\<close>

section \<open>The machine\<close>

text \<open>What a section reports. \<open>Nacked tid b\<close>: a task was taken by a negative acknowledgement, and
  \<open>b\<close> says whether it was marked for the dead letter queue.\<close>

datatype (discs_sels) lc_event =
    Created string
  | Delivered string
  | Acked string
  | Nacked string bool
  | PutBack string
  | Buried string
  | Evicted string
  | Taken string
  | Replayed string
  | Removed string
  | Purged nat
  | Reset

record lifecycle =
  lc_qm :: queue_manager
  lc_nacking :: "task list"
  lc_retrying :: "task list"
  lc_created :: "string list"
  lc_discarded :: "string multiset"
  lc_history :: "lc_event list"

definition lc_start :: "queue_manager \<Rightarrow> lifecycle" where
  "lc_start qm = \<lparr>lc_qm = qm, lc_nacking = [], lc_retrying = [], lc_created = [],
                  lc_discarded = {#}, lc_history = []\<rparr>"

definition lc_init :: "int \<Rightarrow> lifecycle \<Rightarrow> bool" where
  "lc_init r s \<longleftrightarrow> s = lc_start (qm_init r)"

fun dequeue_events :: "task_view option \<Rightarrow> lc_event list" where
  "dequeue_events None = []"
| "dequeue_events (Some v) = [Delivered (tv_task_id v)]"

fun finish_event :: "nack_result \<Rightarrow> lc_event" where
  "finish_event (Requeued tid _ _ _) = PutBack tid"
| "finish_event (Dead_lettered tid _ _) = Buried tid"

inductive lc_step :: "lifecycle \<Rightarrow> lifecycle \<Rightarrow> bool" where
  lc_enqueue:
    "tid \<notin> set (lc_created s) \<Longrightarrow>
     lc_step s (s\<lparr>lc_qm := snd (enqueue tid now q p (lc_qm s)), lc_created := tid # lc_created s,
                  lc_history := Created (fst (enqueue tid now q p (lc_qm s))) # lc_history s\<rparr>)"
| lc_recover:
    "tid \<notin> set (lc_created s) \<Longrightarrow> 0 \<le> n \<Longrightarrow>
     lc_step s (s\<lparr>lc_qm := snd (enqueue_recovered now q tid p n (lc_qm s)),
                  lc_created := tid # lc_created s,
                  lc_history := Created (fst (enqueue_recovered now q tid p n (lc_qm s))) # lc_history s\<rparr>)"
| lc_dequeue:
    "lc_step s (s\<lparr>lc_qm := snd (dequeue q w (lc_qm s)),
                  lc_history := dequeue_events (fst (dequeue q w (lc_qm s))) @ lc_history s\<rparr>)"
| lc_ack:
    "lc_step s (s\<lparr>lc_qm := snd (acknowledge tid (lc_qm s)),
                  lc_history := (if fst (acknowledge tid (lc_qm s)) then [Acked tid] else []) @ lc_history s\<rparr>)"
| lc_nack_take:
    "nack_take tid (lc_qm s) = (Some t, qm) \<Longrightarrow>
     lc_step s (s\<lparr>lc_qm := qm, lc_nacking := t # lc_nacking s,
                  lc_history := Nacked tid (status t = DeadLettered) # lc_history s\<rparr>)"
| lc_nack_finish:
    "t \<in> set (lc_nacking s) \<Longrightarrow>
     lc_step s (s\<lparr>lc_qm := snd (nack_finish now t (lc_qm s)), lc_nacking := remove1 t (lc_nacking s),
                  lc_history := finish_event (fst (nack_finish now t (lc_qm s))) # lc_history s\<rparr>)"
| lc_evict:
    "requeue_by_id tid (lc_qm s) = (True, qm) \<Longrightarrow>
     lc_step s (s\<lparr>lc_qm := qm, lc_history := Evicted tid # lc_history s\<rparr>)"
| lc_retry_take:
    "dlq_take tid (qm_dlq (lc_qm s)) = (Some t, d) \<Longrightarrow>
     lc_step s (s\<lparr>lc_qm := (lc_qm s)\<lparr>qm_dlq := d\<rparr>, lc_retrying := t # lc_retrying s,
                  lc_history := Taken tid # lc_history s\<rparr>)"
| lc_retry_put:
    "t \<in> set (lc_retrying s) \<Longrightarrow> dlq_retry_put requeue t (qm_dlq (lc_qm s)) (lc_qm s) = (d, qm) \<Longrightarrow>
     lc_step s (s\<lparr>lc_qm := qm\<lparr>qm_dlq := d\<rparr>, lc_retrying := remove1 t (lc_retrying s),
                  lc_history := Replayed (task_id t) # lc_history s\<rparr>)"
| lc_dlq_remove:
    "dlq_remove tid (qm_dlq (lc_qm s)) = (True, d) \<Longrightarrow>
     lc_step s (s\<lparr>lc_qm := (lc_qm s)\<lparr>qm_dlq := d\<rparr>, lc_discarded := add_mset tid (lc_discarded s),
                  lc_history := Removed tid # lc_history s\<rparr>)"
| lc_dlq_purge:
    "dlq_purge (qm_dlq (lc_qm s)) = (n, d) \<Longrightarrow>
     lc_step s (s\<lparr>lc_qm := (lc_qm s)\<lparr>qm_dlq := d\<rparr>,
                  lc_discarded := mset (map task_id (dict_values (dlq_tasks (qm_dlq (lc_qm s))))) + lc_discarded s,
                  lc_history := Purged n # lc_history s\<rparr>)"
| lc_reset:
    "lc_step s (s\<lparr>lc_qm := qm_reset (lc_qm s), lc_discarded := qm_pool (lc_qm s) + lc_discarded s,
                  lc_history := Reset # lc_history s\<rparr>)"

text \<open>The whole methods are runs of these sections with nothing in between.\<close>

lemma negative_acknowledge_is_run:
  assumes "negative_acknowledge now tid (lc_qm s) = (Some r, qm)"
  shows "\<exists>b. lc_step\<^sup>*\<^sup>* s (s\<lparr>lc_qm := qm, lc_history := finish_event r # Nacked tid b # lc_history s\<rparr>)"
proof -
  obtain t qm1 where take: "nack_take tid (lc_qm s) = (Some t, qm1)"
    and fin: "nack_finish now t qm1 = (r, qm)"
    using assms by (auto simp: negative_acknowledge_def split: prod.splits option.splits)
  let ?u = "s\<lparr>lc_qm := qm1, lc_nacking := t # lc_nacking s,
              lc_history := Nacked tid (status t = DeadLettered) # lc_history s\<rparr>"
  have "lc_step s ?u" by (rule lc_nack_take [OF take])
  moreover have "lc_step ?u (?u\<lparr>lc_qm := snd (nack_finish now t (lc_qm ?u)),
      lc_nacking := remove1 t (lc_nacking ?u),
      lc_history := finish_event (fst (nack_finish now t (lc_qm ?u))) # lc_history ?u\<rparr>)"
    by (rule lc_nack_finish) simp
  ultimately show ?thesis using fin by (intro exI [of _ "status t = DeadLettered"]) simp
qed

section \<open>Invariant\<close>

definition lc_inv :: "lifecycle \<Rightarrow> bool" where
  "lc_inv s \<longleftrightarrow>
     qm_wf (lc_qm s) \<and> distinct (lc_created s) \<and>
     (\<forall>t \<in> set (lc_nacking s). 1 \<le> attempts t) \<and>
     mset (lc_created s) =
       qm_pool (lc_qm s) + mset (map task_id (lc_nacking s)) + mset (map task_id (lc_retrying s)) +
       lc_discarded s"

lemma lc_inv_no_dups: "lc_inv s \<Longrightarrow> no_dups (mset (lc_created s))"
  unfolding no_dups_mset by (auto simp: lc_inv_def)

lemma lc_inv_ok: "lc_inv s \<Longrightarrow> qm_ok (lc_qm s)"
proof -
  assume inv: "lc_inv s"
  then have "no_dups (mset (lc_created s))" by (rule lc_inv_no_dups)
  moreover have "qm_pool (lc_qm s) \<subseteq># mset (lc_created s)"
    using inv by (simp add: lc_inv_def add.assoc)
  ultimately have "no_dups (qm_pool (lc_qm s))" by (rule no_dups_subset)
  then show ?thesis using inv by (simp add: qm_ok_def lc_inv_def)
qed

lemma lc_inv_created: "lc_inv s \<Longrightarrow> tid \<notin> set (lc_created s) \<Longrightarrow> tid \<notin># qm_pool (lc_qm s)"
  by (metis lc_inv_def set_mset_mset union_iff)

lemma mset_remove1_map: "t \<in> set xs \<Longrightarrow> mset (map f xs) = add_mset (f t) (mset (map f (remove1 t xs)))"
  by (induction xs) auto

lemma dlq_take_pool:
  assumes "qm_wf qm" and "dlq_take tid (qm_dlq qm) = (Some t, d)"
  shows "qm_pool qm = add_mset (task_id t) (qm_pool (qm\<lparr>qm_dlq := d\<rparr>))"
  using assms mset_values_del [of "dlq_tasks (qm_dlq qm)" tid t]
  by (auto simp: dlq_take_def qm_pool_def dlq_ok_dict qm_wf_sel split: option.splits)

lemma dlq_remove_take:
  "dlq_remove tid d = (True, d') \<Longrightarrow> dlq_ok d \<Longrightarrow> \<exists>t. dlq_take tid d = (Some t, d') \<and> task_id t = tid"
  by (auto simp: dlq_remove_def dlq_take_def dead_task_def split: option.splits dest: dlq_ok_getD)

lemma lc_inv_nack_finish:
  assumes inv: "lc_inv s" and t: "t \<in> set (lc_nacking s)"
  shows "lc_inv (s\<lparr>lc_qm := snd (nack_finish now t (lc_qm s)), lc_nacking := remove1 t (lc_nacking s),
                  lc_history := h\<rparr>)"
proof -
  let ?rest = "mset (map task_id (remove1 t (lc_nacking s)))"
  have created: "mset (lc_created s) =
      qm_pool (lc_qm s) + add_mset (task_id t) ?rest + mset (map task_id (lc_retrying s)) + lc_discarded s"
    using inv mset_remove1_map [OF t, of task_id] by (simp add: lc_inv_def)
  moreover have "no_dups (mset (lc_created s))" by (rule lc_inv_no_dups [OF inv])
  ultimately have "task_id t \<notin># qm_pool (lc_qm s)" by simp
  then have "qm_pool (snd (nack_finish now t (lc_qm s))) = add_mset (task_id t) (qm_pool (lc_qm s))"
    using inv by (simp add: lc_inv_def nack_finish_pool)
  moreover have "qm_wf (snd (nack_finish now t (lc_qm s)))"
    using inv t by (force simp: lc_inv_def intro: qm_wf_nack_finish)
  ultimately show ?thesis
    using inv created by (auto simp: lc_inv_def dest: notin_set_remove1)
qed

lemma lc_inv_step:
  assumes "lc_inv s" and "lc_step s s'"
  shows "lc_inv s'"
  using assms(2,1)
proof cases
  case (lc_nack_take tid t qm)
  with assms(1) show ?thesis
    using qm_wf_nack_take [of "lc_qm s" tid] nack_take_attempts [of "lc_qm s" tid t qm]
      nack_take_pool [of "lc_qm s" tid t qm]
    by (auto simp: lc_inv_def)
next
  case (lc_nack_finish t now)
  with assms(1) show ?thesis by (simp add: lc_inv_nack_finish)
next
  case (lc_evict tid qm)
  with assms(1) show ?thesis
    using qm_wf_requeue_by_id [of "lc_qm s" tid] qm_pool_requeue_by_id [of "lc_qm s" tid]
    by (simp add: lc_inv_def)
next
  case (lc_retry_take tid t d)
  with assms(1) show ?thesis
    using dlq_take_pool [of "lc_qm s" tid t d] dlq_ok_take [of "qm_dlq (lc_qm s)" tid]
    by (simp add: lc_inv_def qm_wf_dlq qm_wf_sel)
next
  case (lc_retry_put t d qm)
  then have qm: "qm\<lparr>qm_dlq := d\<rparr> = (requeue (retry_task t) False (lc_qm s))
      \<lparr>qm_dlq := (qm_dlq (lc_qm s))\<lparr>dlq_total_retried := Suc (dlq_total_retried (qm_dlq (lc_qm s)))\<rparr>\<rparr>"
    by (auto simp: dlq_retry_put_def Let_def)
  have "qm_wf (qm\<lparr>qm_dlq := d\<rparr>)"
    unfolding qm using assms(1) by (simp add: lc_inv_def qm_wf_dlq qm_wf_requeue qm_wf_sel retry_task_def)
  moreover have "qm_pool (qm\<lparr>qm_dlq := d\<rparr>) = add_mset (task_id t) (qm_pool (lc_qm s))"
    unfolding qm by (simp add: qm_pool_def retry_task_def)
  ultimately show ?thesis
    using assms(1) lc_retry_put mset_remove1_map [of t "lc_retrying s" task_id] by (simp add: lc_inv_def)
next
  case (lc_dlq_remove tid d)
  then obtain t where "dlq_take tid (qm_dlq (lc_qm s)) = (Some t, d)" and "task_id t = tid"
    using dlq_remove_take [of tid "qm_dlq (lc_qm s)" d] qm_wf_sel(1) [of "lc_qm s"] assms(1)
    by (auto simp: lc_inv_def)
  with assms(1) lc_dlq_remove show ?thesis
    using dlq_take_pool [of "lc_qm s" tid t d] dlq_ok_take [of "qm_dlq (lc_qm s)" tid]
    by (simp add: lc_inv_def qm_wf_dlq qm_wf_sel)
next
  case (lc_dlq_purge n d)
  with assms(1) show ?thesis
    using dlq_ok_purge [of "qm_dlq (lc_qm s)"]
    by (auto simp: lc_inv_def qm_wf_dlq qm_wf_sel qm_pool_def dlq_purge_def Let_def multiset.map_comp)
next
  case lc_reset
  with assms(1) show ?thesis
    by (simp add: lc_inv_def qm_wf_reset) (simp add: qm_pool_def qm_reset_def pending_def)
qed (use lc_inv_ok [OF assms(1)] in \<open>auto simp: lc_inv_def inv_intros lc_inv_created\<close>)

lemma lc_inv_init: "lc_init r s \<Longrightarrow> lc_inv s"
  by (simp add: lc_init_def lc_start_def lc_inv_def)

interpretation lc: inductive_invariant "lc_init r" lc_step lc_inv for r
  by unfold_locales (auto intro: lc_inv_init lc_inv_step)

section \<open>Counters\<close>

definition dead_marked :: "task list \<Rightarrow> nat" where
  "dead_marked ts = length (filter (\<lambda>t. status t = DeadLettered) ts)"

text \<open>How often something was reported; the number of tasks purged; the part of the log since the
  last reset.\<close>

definition tally :: "(lc_event \<Rightarrow> bool) \<Rightarrow> lc_event list \<Rightarrow> nat" where
  "tally P h = length (filter P h)"

fun limit_reached :: "lc_event \<Rightarrow> bool" where
  "limit_reached (Nacked _ b) = b"
| "limit_reached _ = False"

fun purge_size :: "lc_event \<Rightarrow> nat" where
  "purge_size (Purged n) = n"
| "purge_size _ = 0"

definition purged :: "lc_event list \<Rightarrow> nat" where
  "purged h = sum_list (map purge_size h)"

definition since_reset :: "lc_event list \<Rightarrow> lc_event list" where
  "since_reset h = takeWhile (\<lambda>e. e \<noteq> Reset) h"

lemma log_simps [simp]:
  "tally P [] = 0" "tally P (e # h) = (if P e then Suc (tally P h) else tally P h)"
  "purged [] = 0" "purged (e # h) = purge_size e + purged h"
  "since_reset [] = []" "since_reset (e # h) = (if e = Reset then [] else e # since_reset h)"
  by (simp_all add: tally_def purged_def since_reset_def)

text \<open>Every counter is the number of the events it names: the manager's counters since the last
  reset, the dead letter queue's counters since the start.\<close>

definition counters_match :: "queue_manager \<Rightarrow> lc_event list \<Rightarrow> bool" where
  "counters_match qm h \<longleftrightarrow>
     total_enqueued qm = tally is_Created (since_reset h) \<and>
     total_dequeued qm = tally is_Delivered (since_reset h) \<and>
     total_acked qm = tally is_Acked (since_reset h) \<and>
     total_nacked qm = tally is_Nacked (since_reset h) \<and>
     total_dead_lettered qm = tally limit_reached (since_reset h) \<and>
     dlq_total_received (qm_dlq qm) = tally is_Buried h \<and>
     dlq_total_retried (qm_dlq qm) = tally is_Replayed h \<and>
     dlq_total_purged (qm_dlq qm) = purged h"

text \<open>And the events are what happened to the containers.\<close>

definition accounts_balance :: "lifecycle \<Rightarrow> bool" where
  "accounts_balance s \<longleftrightarrow>
     tally is_Created (lc_history s) = length (lc_created s) \<and>
     tally is_Delivered (since_reset (lc_history s)) =
       tally is_Acked (since_reset (lc_history s)) + tally is_Nacked (since_reset (lc_history s)) +
       tally is_Evicted (since_reset (lc_history s)) + length (qm_in_flight (lc_qm s)) \<and>
     tally is_Acked (since_reset (lc_history s)) = length (qm_completed (lc_qm s)) \<and>
     tally limit_reached (lc_history s) = tally is_Buried (lc_history s) + dead_marked (lc_nacking s) \<and>
     tally is_Buried (since_reset (lc_history s)) =
       length (dlq_tasks (qm_dlq (lc_qm s))) + tally is_Taken (since_reset (lc_history s)) +
       tally is_Removed (since_reset (lc_history s)) + purged (since_reset (lc_history s)) \<and>
     tally is_Taken (lc_history s) = tally is_Replayed (lc_history s) + length (lc_retrying s)"

definition lc_counts :: "lifecycle \<Rightarrow> bool" where
  "lc_counts s \<longleftrightarrow> counters_match (lc_qm s) (lc_history s) \<and> accounts_balance s"

lemmas lc_counts_defs = lc_counts_def counters_match_def accounts_balance_def

lemma dead_marked_simps [simp]:
  "dead_marked [] = 0"
  "dead_marked (t # ts) = (if status t = DeadLettered then 1 else 0) + dead_marked ts"
  by (simp_all add: dead_marked_def)

lemma dead_marked_remove1:
  "t \<in> set ts \<Longrightarrow>
     dead_marked ts = (if status t = DeadLettered then 1 else 0) + dead_marked (remove1 t ts)"
  by (induction ts) auto

lemma dequeue_counts:
  assumes "qm_ok qm"
  shows "total_dequeued (snd (dequeue q w qm)) =
           total_dequeued qm + length (dequeue_events (fst (dequeue q w qm)))"
    and "length (qm_in_flight (snd (dequeue q w qm))) =
           length (qm_in_flight qm) + length (dequeue_events (fst (dequeue q w qm)))"
proof -
  have wf: "qm_wf qm" using assms by (simp add: qm_ok_def)
  have "total_dequeued (snd (dequeue q w qm)) =
      total_dequeued qm + length (dequeue_events (fst (dequeue q w qm)))"
    by (rule dequeue_cases [OF qm_wf_sel(4) [OF wf], of q w]) auto
  then show "total_dequeued (snd (dequeue q w qm)) =
      total_dequeued qm + length (dequeue_events (fst (dequeue q w qm)))"
    and "length (qm_in_flight (snd (dequeue q w qm))) =
      length (qm_in_flight qm) + length (dequeue_events (fst (dequeue q w qm)))"
    using dequeue_balance [OF assms, of q w] by simp_all
qed

lemma ack_counts:
  assumes "qm_ok qm"
  shows "total_acked (snd (acknowledge tid qm)) = total_acked qm + of_bool (fst (acknowledge tid qm))"
    and "length (qm_in_flight qm) =
           length (qm_in_flight (snd (acknowledge tid qm))) + of_bool (fst (acknowledge tid qm))"
    and "length (qm_completed (snd (acknowledge tid qm))) =
           length (qm_completed qm) + of_bool (fst (acknowledge tid qm))"
proof -
  have wf: "qm_wf qm" using assms by (simp add: qm_ok_def)
  have "dict_get (qm_completed qm) tid = None" if "dict_get (qm_in_flight qm) tid = Some t" for t
    using qm_fresh_completed [OF qm_wf_flight_del [OF wf], of tid tid] assms qm_ok_flight_pool [OF wf that]
    by (simp add: qm_ok_def)
  then show "total_acked (snd (acknowledge tid qm)) = total_acked qm + of_bool (fst (acknowledge tid qm))"
    and "length (qm_in_flight qm) =
      length (qm_in_flight (snd (acknowledge tid qm))) + of_bool (fst (acknowledge tid qm))"
    and "length (qm_completed (snd (acknowledge tid qm))) =
      length (qm_completed qm) + of_bool (fst (acknowledge tid qm))"
    using length_dict_del [OF qm_wf_sel(2) [OF wf], of tid]
    by (auto simp: acknowledge_def length_dict_set split: option.split)
qed

lemma ack_frame [simp]:
  "qm_queues (snd (acknowledge tid qm)) = qm_queues qm"
  "qm_dlq (snd (acknowledge tid qm)) = qm_dlq qm"
  "max_retries (snd (acknowledge tid qm)) = max_retries qm"
  "total_enqueued (snd (acknowledge tid qm)) = total_enqueued qm"
  "total_dequeued (snd (acknowledge tid qm)) = total_dequeued qm"
  "total_nacked (snd (acknowledge tid qm)) = total_nacked qm"
  "total_dead_lettered (snd (acknowledge tid qm)) = total_dead_lettered qm"
  by (simp_all add: acknowledge_def split: option.split)

lemma nack_take_counts:
  assumes "qm_wf qm" and "nack_take tid qm = (Some t, qm')"
  shows "total_nacked qm' = Suc (total_nacked qm)"
    and "length (qm_in_flight qm) = Suc (length (qm_in_flight qm'))"
    and "total_dead_lettered qm' = total_dead_lettered qm + (if status t = DeadLettered then 1 else 0)"
    and "qm_dlq qm' = qm_dlq qm" "total_enqueued qm' = total_enqueued qm"
      "total_dequeued qm' = total_dequeued qm" "total_acked qm' = total_acked qm"
      "max_retries qm' = max_retries qm" "pending qm' = pending qm" "qm_completed qm' = qm_completed qm"
    and "status t = DeadLettered \<longleftrightarrow> max_retries qm \<le> attempts t"
proof -
  obtain u where u: "dict_get (qm_in_flight qm) tid = Some u"
    and eqs: "qm' = (if max_retries qm \<le> attempts u
        then qm\<lparr>qm_in_flight := dict_del tid (qm_in_flight qm), total_nacked := Suc (total_nacked qm),
                total_dead_lettered := Suc (total_dead_lettered qm)\<rparr>
        else qm\<lparr>qm_in_flight := dict_del tid (qm_in_flight qm), total_nacked := Suc (total_nacked qm)\<rparr>)"
      "t = (if max_retries qm \<le> attempts u then u\<lparr>status := DeadLettered\<rparr> else u)"
    using assms(2) by (auto simp: nack_take_def Let_def split: option.splits if_splits)
  have "status u = InFlight" using qm_wf_flightD [OF assms(1) u] by (simp add: task_ok_defs)
  moreover note length_dict_del [OF qm_wf_sel(2) [OF assms(1)] u]
  ultimately show "total_nacked qm' = Suc (total_nacked qm)"
    and "length (qm_in_flight qm) = Suc (length (qm_in_flight qm'))"
    and "total_dead_lettered qm' = total_dead_lettered qm + (if status t = DeadLettered then 1 else 0)"
    and "qm_dlq qm' = qm_dlq qm" "total_enqueued qm' = total_enqueued qm"
      "total_dequeued qm' = total_dequeued qm" "total_acked qm' = total_acked qm"
      "max_retries qm' = max_retries qm" "pending qm' = pending qm" "qm_completed qm' = qm_completed qm"
    and "status t = DeadLettered \<longleftrightarrow> max_retries qm \<le> attempts t"
    by (auto simp: eqs)
qed

lemma requeue_by_id_counts:
  assumes "qm_wf qm" and "requeue_by_id tid qm = (True, qm')"
  shows "length (qm_in_flight qm) = Suc (length (qm_in_flight qm'))"
    and "qm_dlq qm' = qm_dlq qm" "total_enqueued qm' = total_enqueued qm"
      "total_dequeued qm' = total_dequeued qm" "total_acked qm' = total_acked qm"
      "total_nacked qm' = total_nacked qm" "total_dead_lettered qm' = total_dead_lettered qm"
      "max_retries qm' = max_retries qm" "qm_completed qm' = qm_completed qm"
  using assms(2) length_dict_del [OF qm_wf_sel(2) [OF assms(1)], of tid]
  by (auto simp: requeue_by_id_eq split: option.splits)

lemma dlq_take_counts:
  assumes "dlq_ok d" and "dlq_take tid d = (Some t, d')"
  shows "length (dlq_tasks d) = Suc (length (dlq_tasks d'))"
    and "dlq_total_received d' = dlq_total_received d" "dlq_total_retried d' = dlq_total_retried d"
      "dlq_total_purged d' = dlq_total_purged d"
  using assms(2) length_dict_del [OF dlq_ok_dict [OF assms(1)], of tid]
  by (auto simp: dlq_take_def split: option.splits)

lemma lc_nacking_fresh:
  assumes "lc_inv s" and "t \<in> set (lc_nacking s)"
  shows "task_id t \<notin># qm_pool (lc_qm s)"
  using lc_inv_no_dups [OF assms(1)] assms mset_remove1_map [OF assms(2), of task_id]
  by (auto simp: lc_inv_def)

lemma lc_counts_step:
  assumes "lc_inv s" and "lc_counts s" and "lc_step s s'"
  shows "lc_counts s'"
  using assms(3)
proof cases
  case (lc_dequeue q w)
  with assms(2) dequeue_counts [OF lc_inv_ok [OF assms(1)], of q w] show ?thesis
    by (cases "fst (dequeue q w (lc_qm s))") (simp_all add: lc_counts_defs)
next
  case (lc_ack tid)
  with assms(2) ack_counts [OF lc_inv_ok [OF assms(1)], of tid] show ?thesis
    by (simp add: lc_counts_defs)
next
  case (lc_nack_take tid t qm)
  with assms nack_take_counts [of "lc_qm s" tid t qm] show ?thesis
    by (simp add: lc_counts_defs lc_inv_def)
next
  case (lc_nack_finish t now)
  have "dict_get (dlq_tasks (qm_dlq (lc_qm s))) (task_id t) = None"
    using assms(1) lc_nacking_fresh [OF assms(1) lc_nack_finish(2)] by (simp add: lc_inv_def qm_fresh_dlq)
  with assms lc_nack_finish dead_marked_remove1 [of t "lc_nacking s"] show ?thesis
    by (simp add: lc_counts_defs nack_finish_eq dlq_add_def length_dict_set split: if_splits)
next
  case (lc_evict tid qm)
  with assms requeue_by_id_counts [of "lc_qm s" tid qm] show ?thesis
    by (simp add: lc_counts_defs lc_inv_def)
next
  case (lc_retry_take tid t d)
  with assms dlq_take_counts [of "qm_dlq (lc_qm s)" tid t d] show ?thesis
    by (simp add: lc_counts_defs lc_inv_def qm_wf_sel)
next
  case (lc_retry_put t d qm)
  moreover have "length (lc_retrying s) = Suc (length (remove1 t (lc_retrying s)))"
    using lc_retry_put(2) length_pos_if_in_set [of t "lc_retrying s"] by (simp add: length_remove1)
  ultimately show ?thesis using assms by (auto simp: lc_counts_defs dlq_retry_put_def Let_def)
next
  case (lc_dlq_remove tid d)
  then obtain t where "dlq_take tid (qm_dlq (lc_qm s)) = (Some t, d)"
    using dlq_remove_take [of tid "qm_dlq (lc_qm s)" d] qm_wf_sel(1) [of "lc_qm s"] assms(1)
    by (auto simp: lc_inv_def)
  with assms lc_dlq_remove dlq_take_counts [of "qm_dlq (lc_qm s)" tid t d] show ?thesis
    by (simp add: lc_counts_defs lc_inv_def qm_wf_sel)
qed (use assms in \<open>auto simp: lc_counts_defs enqueue_eq enqueue_recovered_eq dlq_purge_def qm_reset_def Let_def\<close>)

lemma lc_counts_init: "lc_init r s \<Longrightarrow> lc_counts s"
  by (simp add: lc_init_def lc_start_def lc_counts_defs qm_init_def dlq_init_def)

interpretation lc_counted: inductive_invariant "lc_init r" lc_step "\<lambda>s. lc_inv s \<and> lc_counts s" for r
  by unfold_locales (auto intro: lc_inv_init lc_counts_init lc_inv_step lc_counts_step)

section \<open>The delivery bound\<close>

text \<open>How often a task was delivered and evicted since it was created or last replayed.\<close>

fun deliveries :: "string \<Rightarrow> lc_event list \<Rightarrow> nat" where
  "deliveries tid [] = 0"
| "deliveries tid (Delivered k # h) = (if k = tid then Suc (deliveries tid h) else deliveries tid h)"
| "deliveries tid (Replayed k # h) = (if k = tid then 0 else deliveries tid h)"
| "deliveries tid (_ # h) = deliveries tid h"

fun evictions :: "string \<Rightarrow> lc_event list \<Rightarrow> nat" where
  "evictions tid [] = 0"
| "evictions tid (Evicted k # h) = (if k = tid then Suc (evictions tid h) else evictions tid h)"
| "evictions tid (Replayed k # h) = (if k = tid then 0 else evictions tid h)"
| "evictions tid (_ # h) = evictions tid h"

definition budget :: "int \<Rightarrow> string \<Rightarrow> lc_event list \<Rightarrow> int" where
  "budget r tid h = r + int (evictions tid h)"

text \<open>A waiting task has a delivery left; the attempt count of a task covers its deliveries.\<close>

definition waiting_ok :: "int \<Rightarrow> lc_event list \<Rightarrow> task \<Rightarrow> bool" where
  "waiting_ok r h t \<longleftrightarrow>
     int (deliveries (task_id t) h) \<le> attempts t \<and> int (deliveries (task_id t) h) < budget r (task_id t) h"

definition flying_ok :: "lc_event list \<Rightarrow> task \<Rightarrow> bool" where
  "flying_ok h t \<longleftrightarrow> int (deliveries (task_id t) h) \<le> attempts t"

definition lc_bounded :: "int \<Rightarrow> lifecycle \<Rightarrow> bool" where
  "lc_bounded r s \<longleftrightarrow>
     max_retries (lc_qm s) = r \<and>
     (\<forall>tid. int (deliveries tid (lc_history s)) \<le> budget r tid (lc_history s)) \<and>
     (\<forall>tid. tid \<notin> set (lc_created s) \<longrightarrow> deliveries tid (lc_history s) = 0) \<and>
     (\<forall>t. t \<in># pending (lc_qm s) \<longrightarrow> waiting_ok r (lc_history s) t) \<and>
     (\<forall>(k, t) \<in> set (qm_in_flight (lc_qm s)). flying_ok (lc_history s) t) \<and>
     (\<forall>t \<in> set (lc_nacking s).
        flying_ok (lc_history s) t \<and> (status t = DeadLettered \<or> attempts t < r))"

lemma budget_simps [simp]:
  "budget r tid (Delivered k # h) = budget r tid h"
  "budget r tid (Created k # h) = budget r tid h"
  "budget r tid (Acked k # h) = budget r tid h"
  "budget r tid (Nacked k b # h) = budget r tid h"
  "budget r tid (PutBack k # h) = budget r tid h"
  "budget r tid (Buried k # h) = budget r tid h"
  "budget r tid (Taken k # h) = budget r tid h"
  "budget r tid (Removed k # h) = budget r tid h"
  "budget r tid (Purged n # h) = budget r tid h"
  "budget r tid (Reset # h) = budget r tid h"
  "budget r tid (Evicted k # h) = (if k = tid then budget r tid h + 1 else budget r tid h)"
  "budget r tid (Replayed k # h) = (if k = tid then r else budget r tid h)"
  by (simp_all add: budget_def)

lemma budget_ge: "r \<le> budget r tid h"
  by (simp add: budget_def)

lemmas task_bound_defs = waiting_ok_def flying_ok_def

text \<open>The sections that hand nothing out and bring nothing back leave the bound alone.\<close>

lemma finish_event_neutral [simp]:
  "deliveries tid (finish_event x # h) = deliveries tid h"
  "budget r tid (finish_event x # h) = budget r tid h"
  by (cases x; simp)+

lemma ack_bounded:
  assumes "lc_bounded r s"
  shows "lc_bounded r (s\<lparr>lc_qm := snd (acknowledge tid (lc_qm s)),
           lc_history := (if fst (acknowledge tid (lc_qm s)) then [Acked tid] else []) @ lc_history s\<rparr>)"
proof -
  have "set (qm_in_flight (snd (acknowledge tid (lc_qm s)))) \<subseteq> set (qm_in_flight (lc_qm s))"
    by (auto simp: acknowledge_def dict_simps split: option.split)
  moreover have "pending (snd (acknowledge tid (lc_qm s))) = pending (lc_qm s)"
    by (simp add: pending_def)
  ultimately show ?thesis using assms by (auto simp: lc_bounded_def task_bound_defs)
qed

lemma nack_take_bounded:
  assumes "lc_inv s" and "lc_bounded r s" and take: "nack_take tid (lc_qm s) = (Some t, qm)"
  shows "lc_bounded r (s\<lparr>lc_qm := qm, lc_nacking := t # lc_nacking s,
           lc_history := Nacked tid (status t = DeadLettered) # lc_history s\<rparr>)"
proof -
  obtain u where u: "dict_get (qm_in_flight (lc_qm s)) tid = Some u"
    and t: "task_id t = task_id u" "attempts t = attempts u"
    using take by (auto simp: nack_take_def Let_def split: option.splits if_splits)
  have "set (qm_in_flight qm) \<subseteq> set (qm_in_flight (lc_qm s))"
    using take by (auto simp: nack_take_def Let_def dict_simps split: option.splits if_splits)
  moreover have "flying_ok (lc_history s) t"
    using assms(2) dict_get_in [OF u] t by (fastforce simp: lc_bounded_def flying_ok_def)
  ultimately show ?thesis
    using assms nack_take_counts [of "lc_qm s" tid t qm]
    by (auto simp: lc_bounded_def lc_inv_def task_bound_defs)
qed

text \<open>A delivery uses up one unit; the other tasks have other identifiers.\<close>

lemma dequeue_bounded:
  assumes inv: "lc_inv s" and bounded: "lc_bounded r s"
  shows "lc_bounded r (s\<lparr>lc_qm := snd (dequeue q w (lc_qm s)),
           lc_history := dequeue_events (fst (dequeue q w (lc_qm s))) @ lc_history s\<rparr>)"
proof -
  let ?qm = "lc_qm s" and ?h = "lc_history s"
  have ok: "qm_ok ?qm" by (rule lc_inv_ok [OF inv])
  then have wf: "qm_wf ?qm" by (simp add: qm_ok_def)
  show ?thesis
  proof (rule dequeue_cases [OF qm_wf_sel(4) [OF wf], of q w])
    assume "fst (dequeue q w ?qm) = None"
      and "snd (dequeue q w ?qm) = ?qm \<or> snd (dequeue q w ?qm) = ensure_queue q ?qm"
    then show ?thesis using bounded by (auto simp: lc_bounded_def)
  next
    fix q' t ts
    assume queue: "queue_of ?qm q' = t # ts"
      and eq: "dequeue q w ?qm =
         (Some (view_of (take_in_flight w t)),
          (put_queue q' ts ?qm)\<lparr>qm_in_flight := dict_set (task_id t) (take_in_flight w t) (qm_in_flight ?qm),
                               total_dequeued := Suc (total_dequeued ?qm)\<rparr>)"
    have pend: "pending ?qm = add_mset t (pending (put_queue q' ts ?qm))" by (rule pending_pop [OF queue])
    then have t: "waiting_ok r ?h t" using bounded by (simp add: lc_bounded_def)
    have "no_dups (qm_pool ?qm)" using ok by (simp add: qm_ok_def)
    then have others: "task_id u \<noteq> task_id t" if "u \<in># pending (put_queue q' ts ?qm)" for u
      using that by (auto simp: qm_pool_def pend image_iff)
    have flying: "task_id u \<noteq> task_id t" if "(k, u) \<in> set (qm_in_flight ?qm)" for k u
    proof -
      have "dict_get (qm_in_flight ?qm) (task_id t) = None"
        by (rule qm_ok_pending_flight [OF ok]) (simp add: pend)
      moreover have "dict_get (qm_in_flight ?qm) k = Some u"
        using that dict_get_content [OF qm_wf_sel(2) [OF wf]] by simp
      moreover from this have "task_id u = k" using qm_wf_flightD [OF wf] by (simp add: flight_ok_def)
      ultimately show ?thesis by auto
    qed
    have "task_id t \<in># qm_pool ?qm" by (simp add: qm_pool_pending pend)
    then have created: "task_id t \<in> set (lc_created s)"
      using lc_inv_created [OF inv] by blast
    have nacking: "task_id u \<noteq> task_id t" if "u \<in> set (lc_nacking s)" for u
      using lc_nacking_fresh [OF inv that] \<open>task_id t \<in># qm_pool ?qm\<close> by auto
    show ?thesis
      using bounded pend t others flying created nacking
      by (fastforce simp: lc_bounded_def eq task_bound_defs view_of_def take_in_flight_def
          dict_set_content [OF qm_wf_sel(2) [OF wf]])
  qed
qed

lemma nack_finish_bounded:
  assumes "lc_bounded r s" and t: "t \<in> set (lc_nacking s)"
  shows "lc_bounded r (s\<lparr>lc_qm := snd (nack_finish now t (lc_qm s)), lc_nacking := remove1 t (lc_nacking s),
           lc_history := finish_event (fst (nack_finish now t (lc_qm s))) # lc_history s\<rparr>)"
proof -
  have "waiting_ok r (lc_history s) t" if "status t \<noteq> DeadLettered"
    using assms that budget_ge [of r "task_id t" "lc_history s"]
    by (fastforce simp: lc_bounded_def task_bound_defs)
  moreover have "set (remove1 t (lc_nacking s)) \<subseteq> set (lc_nacking s)" by (rule set_remove1_subset)
  ultimately show ?thesis
    using assms(1) by (auto simp: lc_bounded_def nack_finish_eq task_bound_defs)
qed

lemma evict_bounded:
  assumes "lc_inv s" and bounded: "lc_bounded r s" and evict: "requeue_by_id tid (lc_qm s) = (True, qm)"
  shows "lc_bounded r (s\<lparr>lc_qm := qm, lc_history := Evicted tid # lc_history s\<rparr>)"
proof -
  obtain t where t: "dict_get (qm_in_flight (lc_qm s)) tid = Some t"
    and qm: "qm = requeue t True ((lc_qm s)\<lparr>qm_in_flight := dict_del tid (qm_in_flight (lc_qm s))\<rparr>)"
    using evict by (auto simp: requeue_by_id_eq split: option.splits)
  have id: "task_id t = tid"
    using assms(1) qm_wf_flightD [of "lc_qm s" tid t] t by (simp add: lc_inv_def flight_ok_def)
  have "flying_ok (lc_history s) t"
    using bounded dict_get_in [OF t] by (fastforce simp: lc_bounded_def)
  moreover have bound: "int (deliveries k (lc_history s)) \<le> budget r k (lc_history s)" for k
    using bounded by (simp add: lc_bounded_def)
  ultimately have "waiting_ok r (Evicted tid # lc_history s) (t\<lparr>status := Pending, assigned_worker := None\<rparr>)"
    using id bound [of tid] by (simp add: task_bound_defs)
  moreover have "waiting_ok r (Evicted tid # lc_history s) u" if "u \<in># pending (lc_qm s)" for u
    using bounded that by (fastforce simp: lc_bounded_def waiting_ok_def)
  ultimately show ?thesis
    using bounded bound by (auto simp: lc_bounded_def qm flying_ok_def dict_simps add_increasing2)
qed

lemma retry_put_bounded:
  assumes "0 < r" and inv: "lc_inv s" and bounded: "lc_bounded r s" and t: "t \<in> set (lc_retrying s)"
    and put: "dlq_retry_put requeue t (qm_dlq (lc_qm s)) (lc_qm s) = (d, qm)"
  shows "lc_bounded r (s\<lparr>lc_qm := qm\<lparr>qm_dlq := d\<rparr>, lc_retrying := remove1 t (lc_retrying s),
           lc_history := Replayed (task_id t) # lc_history s\<rparr>)"
proof -
  have qm: "qm = requeue (retry_task t) False (lc_qm s)" using put by (auto simp: dlq_retry_put_def Let_def)
  have "waiting_ok r (Replayed (task_id t) # lc_history s) u"
    if "u = (retry_task t)\<lparr>status := Pending, assigned_worker := None\<rparr>" for u
    using assms(1) that by (simp add: waiting_ok_def retry_task_def)
  moreover have "waiting_ok r (Replayed (task_id t) # lc_history s) u" if "u \<in># pending (lc_qm s)" for u
  proof -
    have "waiting_ok r (lc_history s) u" using bounded that by (simp add: lc_bounded_def)
    moreover have "0 \<le> attempts u"
      using inv qm_wf_pending [OF _ that] by (simp add: lc_inv_def pending_ok_def)
    ultimately show ?thesis using assms(1) by (simp add: waiting_ok_def)
  qed
  moreover have "flying_ok (Replayed (task_id t) # lc_history s) u" if "flying_ok (lc_history s) u" for u
    using that by (auto simp: flying_ok_def)
  ultimately show ?thesis
    using assms(1) bounded by (auto simp: lc_bounded_def qm)
qed

lemma created_bounded:
  assumes "0 < r" and bounded: "lc_bounded r s" and "tid \<notin> set (lc_created s)" and "0 \<le> attempts t"
    and "task_id t = tid" and "pending qm = add_mset t (pending (lc_qm s))"
    and "qm_in_flight qm = qm_in_flight (lc_qm s)" and "max_retries qm = max_retries (lc_qm s)"
  shows "lc_bounded r (s\<lparr>lc_qm := qm, lc_created := tid # lc_created s,
           lc_history := Created tid # lc_history s\<rparr>)"
proof -
  have "waiting_ok r (lc_history s) t"
    using assms(1-5) budget_ge [of r tid "lc_history s"] by (simp add: lc_bounded_def waiting_ok_def)
  then show ?thesis using bounded assms(6-8) by (auto simp: lc_bounded_def task_bound_defs)
qed

lemma lc_bounded_step:
  assumes "lc_inv s" and "0 < r" and "lc_bounded r s" and "lc_step s s'"
  shows "lc_bounded r s'"
  using assms(4)
proof cases
  case (lc_enqueue tid now q p)
  with created_bounded [OF assms(2,3), where tid = tid and t = "new_task tid q p now"] show ?thesis
    by (simp add: enqueue_eq)
next
  case (lc_recover tid n now q p)
  with created_bounded [OF assms(2,3), where tid = tid and t = "(new_task tid q p now)\<lparr>attempts := n\<rparr>"]
  show ?thesis by (simp add: enqueue_recovered_eq)
next
  case (lc_dequeue q w)
  with assms show ?thesis by (simp add: dequeue_bounded)
next
  case (lc_ack tid)
  with ack_bounded [OF assms(3), of tid] show ?thesis by simp
next
  case (lc_nack_take tid t qm)
  with assms show ?thesis by (simp add: nack_take_bounded)
next
  case (lc_nack_finish t now)
  with assms show ?thesis by (simp add: nack_finish_bounded)
next
  case (lc_evict tid qm)
  with assms show ?thesis by (simp add: evict_bounded)
next
  case (lc_retry_put t d qm)
  with assms show ?thesis by (simp add: retry_put_bounded)
next
  case lc_reset
  with assms(3) show ?thesis
    by (auto simp: lc_bounded_def qm_reset_def pending_def task_bound_defs)
qed (use assms(3) in \<open>auto simp: lc_bounded_def task_bound_defs\<close>)

lemma lc_bounded_init: "0 < r \<Longrightarrow> lc_init r s \<Longrightarrow> lc_bounded r s"
  by (simp add: lc_init_def lc_start_def lc_bounded_def qm_init_def pending_def budget_def)

interpretation lc_delivery: inductive_invariant
  "lc_init r" lc_step "\<lambda>s. lc_inv s \<and> (0 < r \<longrightarrow> lc_bounded r s)" for r
  by unfold_locales (auto intro: lc_inv_init lc_bounded_init lc_inv_step lc_bounded_step)

section \<open>A short run\<close>

text \<open>One task is enqueued, delivered and taken by a negative acknowledgement that has not
  finished yet.\<close>

definition mid_nack :: lifecycle where
  "mid_nack =
     (let qm1 = snd (dequeue ''q'' (JStr ''w'') (snd (enqueue ''t'' 0 ''q'' JNull (qm_init 3))))
      in (lc_start (qm_init 3))\<lparr>lc_qm := snd (nack_take ''t'' qm1),
            lc_nacking := [the (fst (nack_take ''t'' qm1))], lc_created := [''t''],
            lc_history := [Nacked ''t'' False, Delivered ''t'', Created ''t'']\<rparr>)"

lemma mid_nack_reach: "reach (lc_init 3) lc_step mid_nack"
proof -
  let ?s0 = "lc_start (qm_init 3)"
  let ?s1 = "?s0\<lparr>lc_qm := snd (enqueue ''t'' 0 ''q'' JNull (lc_qm ?s0)), lc_created := ''t'' # lc_created ?s0,
               lc_history := Created (fst (enqueue ''t'' 0 ''q'' JNull (lc_qm ?s0))) # lc_history ?s0\<rparr>"
  let ?s2 = "?s1\<lparr>lc_qm := snd (dequeue ''q'' (JStr ''w'') (lc_qm ?s1)),
               lc_history := dequeue_events (fst (dequeue ''q'' (JStr ''w'') (lc_qm ?s1))) @ lc_history ?s1\<rparr>"
  have "reach (lc_init 3) lc_step ?s0" by (rule reach_init) (simp add: lc_init_def)
  moreover have "lc_step ?s0 ?s1" by (rule lc_enqueue) (simp add: lc_start_def)
  ultimately have "reach (lc_init 3) lc_step ?s1" by (rule reach_step)
  moreover have "lc_step ?s1 ?s2" by (rule lc_dequeue)
  ultimately have "reach (lc_init 3) lc_step ?s2" by (rule reach_step)
  moreover have "lc_step ?s2 mid_nack"
  proof -
    note eval = lc_start_def enqueue_eq nack_take_def dequeue_def pop_task_def Let_def queue_of_def
      dict_get_or_def ensure_queue_def put_queue_def qm_init_def take_in_flight_def view_of_def
    obtain t qm where take: "nack_take ''t'' (lc_qm ?s2) = (Some t, qm)" and "status t = InFlight"
      by (simp add: eval)
    moreover have "dequeue_events (fst (dequeue ''q'' (JStr ''w'') (lc_qm ?s1))) = [Delivered ''t'']"
      by (simp add: eval)
    ultimately have "mid_nack = ?s2\<lparr>lc_qm := qm, lc_nacking := t # lc_nacking ?s2,
        lc_history := Nacked ''t'' (status t = DeadLettered) # lc_history ?s2\<rparr>"
      by (simp add: mid_nack_def lc_start_def Let_def enqueue_eq)
    then show ?thesis using lc_nack_take [OF take] by simp
  qed
  ultimately show ?thesis by (rule reach_step)
qed

section \<open>Properties\<close>

text \<open>
  C1. No task is lost or duplicated. Under every interleaving of the critical sections of the
  queue manager and the dead letter queue, the dashboard's reset included, each identifier ever
  created is at any moment in exactly one place: pending in a queue, in flight, completed,
  dead-lettered, held by an unfinished negative acknowledgement, held by an unfinished replay, or
  discarded by an operator (a removal, a purge or a reset); and nothing else is anywhere.
\<close>

theorem no_task_lost:
  assumes "reach (lc_init r) lc_step s"
  shows "distinct (lc_created s) \<and>
         mset (lc_created s) =
           qm_pool (lc_qm s) + mset (map task_id (lc_nacking s)) + mset (map task_id (lc_retrying s)) +
           lc_discarded s"
  using lc.reach_inv [OF assms] by (simp add: lc_inv_def)

theorem no_task_lost_witness:
  "mset (lc_created mid_nack) =
     qm_pool (lc_qm mid_nack) + mset (map task_id (lc_nacking mid_nack)) +
     mset (map task_id (lc_retrying mid_nack)) + lc_discarded mid_nack"
  using no_task_lost [OF mid_nack_reach] by simp

text \<open>
  C11. The statistics are exact. Under every interleaving, each counter by itself is the number of
  the reports it stands for: since the last reset, tasks accepted, deliveries, successful
  acknowledgements, negative acknowledgements, and those that reached the retry limit; since the
  start, tasks added to the dead letter queue, replays finished and tasks purged. And these
  reports account for the containers: every delivery was acknowledged, negatively acknowledged or
  evicted, or is still in flight; the archive holds one task per acknowledgement; every task
  that reached the limit was added to the dead letter queue or is on its way there; what was added
  is still there, was taken for a replay, removed or purged; and every replay started has
  finished or is under way.
\<close>

theorem counters_exact:
  assumes "reach (lc_init r) lc_step s"
  shows "let qm = lc_qm s; d = qm_dlq qm; ever = lc_history s; h = since_reset ever in
           total_enqueued qm = tally is_Created h \<and>
           total_dequeued qm = tally is_Delivered h \<and>
           total_acked qm = tally is_Acked h \<and>
           total_nacked qm = tally is_Nacked h \<and>
           total_dead_lettered qm = tally limit_reached h \<and>
           dlq_total_received d = tally is_Buried ever \<and>
           dlq_total_retried d = tally is_Replayed ever \<and>
           dlq_total_purged d = purged ever \<and>
           tally is_Created ever = length (lc_created s) \<and>
           tally is_Delivered h =
             tally is_Acked h + tally is_Nacked h + tally is_Evicted h + length (qm_in_flight qm) \<and>
           tally is_Acked h = length (qm_completed qm) \<and>
           tally limit_reached ever = tally is_Buried ever + dead_marked (lc_nacking s) \<and>
           tally is_Buried h = length (dlq_tasks d) + tally is_Taken h + tally is_Removed h + purged h \<and>
           tally is_Taken ever = tally is_Replayed ever + length (lc_retrying s)"
  using lc_counted.reach_inv [OF assms] by (simp add: lc_counts_defs Let_def)

theorem counters_exact_witness:
  "total_dequeued (lc_qm mid_nack) = 1 \<and> total_nacked (lc_qm mid_nack) = 1 \<and>
   total_acked (lc_qm mid_nack) = 0 \<and> qm_in_flight (lc_qm mid_nack) = []"
proof -
  have "lc_history mid_nack = [Nacked ''t'' False, Delivered ''t'', Created ''t'']"
    by (simp add: mid_nack_def Let_def)
  with counters_exact [OF mid_nack_reach] show ?thesis by (simp add: Let_def)
qed

text \<open>
  C12. Bounded delivery. With a positive retry limit, under every interleaving, no task is handed to
  consumers more than \<open>max_retries\<close> times since it was created, recovered or last replayed, plus
  once for every time an eviction took it back; and a waiting task still has a delivery left.
\<close>

theorem bounded_delivery:
  assumes "0 < r" and "reach (lc_init r) lc_step s"
  shows "(\<forall>tid. int (deliveries tid (lc_history s)) \<le> r + int (evictions tid (lc_history s))) \<and>
         (\<forall>t. t \<in># pending (lc_qm s) \<longrightarrow>
            int (deliveries (task_id t) (lc_history s)) < r + int (evictions (task_id t) (lc_history s)))"
  using lc_delivery.reach_inv [OF assms(2)] assms(1)
  by (simp add: lc_bounded_def waiting_ok_def budget_def)

theorem bounded_delivery_witness:
  "deliveries ''t'' (lc_history mid_nack) = 1 \<and>
   int (deliveries ''t'' (lc_history mid_nack)) \<le> 3 + int (evictions ''t'' (lc_history mid_nack))"
proof -
  have "deliveries ''t'' (lc_history mid_nack) = 1" by (simp add: mid_nack_def Let_def)
  then show ?thesis using bounded_delivery [OF _ mid_nack_reach] by simp
qed

end
