(* ===== verification/Task_Ledger.thy ===== *)
theory Task_Ledger
  imports Queue_Manager
begin

text \<open>
  An abstract specification of the queue manager: a ledger that maps every known task
  identifier to its queue, status and attempt count. Its steps are labelled by a call and what
  the call returned, and each label fixes which ledgers it may happen in and what it does to
  them. The theory shows that every method of \<open>QueueManager\<close> is the ledger step with the same
  label (a forward simulation), so the sequence of calls and results of a run of the manager is
  one of the ledger.
\<close>

section \<open>The abstract ledger\<close>

type_synonym ledger = "string \<Rightarrow> (string \<times> task_status \<times> int) option"

text \<open>A call with its result: the identifier of the task handed out, what a negative
  acknowledgement decided, whether the task was found.\<close>

datatype qm_call =
    Enqueue string string
  | Recover string string int
  | Dequeue string "string option"
  | Ack string bool
  | Nack string "nack_result option"
  | Evict string bool
  | Replay string bool

definition in_flight_at :: "ledger \<Rightarrow> string \<Rightarrow> bool" where
  "in_flight_at L tid \<longleftrightarrow> (\<exists>q n. L tid = Some (q, InFlight, n))"

definition dead_at :: "ledger \<Rightarrow> string \<Rightarrow> bool" where
  "dead_at L tid \<longleftrightarrow> (\<exists>q n. L tid = Some (q, DeadLettered, n))"

text \<open>Whether a consumer of \<open>q\<close> may come back empty-handed: when nothing is pending in that queue;
  a wildcard consumer also when something is pending in a queue with the empty name.\<close>

definition nothing_for :: "ledger \<Rightarrow> string \<Rightarrow> bool" where
  "nothing_for L q \<longleftrightarrow>
     (if q = ''*'' then (\<forall>tid q' n. L tid \<noteq> Some (q', Pending, n)) \<or> (\<exists>tid n. L tid = Some ([], Pending, n))
      else (\<forall>tid n. L tid \<noteq> Some (q, Pending, n)))"

inductive ledger_step :: "int \<Rightarrow> ledger \<Rightarrow> qm_call \<Rightarrow> ledger \<Rightarrow> bool" for r where
  l_create: "L tid = None \<Longrightarrow> ledger_step r L (Enqueue tid q) (L(tid \<mapsto> (q, Pending, 0)))"
| l_recover: "L tid = None \<Longrightarrow> 0 \<le> n \<Longrightarrow> ledger_step r L (Recover tid q n) (L(tid \<mapsto> (q, Pending, n)))"
| l_deliver:
    "L tid = Some (q', Pending, n) \<Longrightarrow> q' = q \<or> q = ''*'' \<Longrightarrow>
     ledger_step r L (Dequeue q (Some tid)) (L(tid \<mapsto> (q', InFlight, n + 1)))"
| l_idle: "nothing_for L q \<Longrightarrow> ledger_step r L (Dequeue q None) L"
| l_complete: "L tid = Some (q, InFlight, n) \<Longrightarrow> ledger_step r L (Ack tid True) (L(tid \<mapsto> (q, Done, n)))"
| l_late_ack: "\<not> in_flight_at L tid \<Longrightarrow> ledger_step r L (Ack tid False) L"
| l_retry:
    "L tid = Some (q, InFlight, n) \<Longrightarrow> n < r \<Longrightarrow>
     ledger_step r L (Nack tid (Some (Requeued tid n r q))) (L(tid \<mapsto> (q, Pending, n)))"
| l_bury:
    "L tid = Some (q, InFlight, n) \<Longrightarrow> r \<le> n \<Longrightarrow>
     ledger_step r L (Nack tid (Some (Dead_lettered tid n q))) (L(tid \<mapsto> (q, DeadLettered, n)))"
| l_late_nack: "\<not> in_flight_at L tid \<Longrightarrow> ledger_step r L (Nack tid None) L"
| l_evict: "L tid = Some (q, InFlight, n) \<Longrightarrow> ledger_step r L (Evict tid True) (L(tid \<mapsto> (q, Pending, n)))"
| l_late_evict: "\<not> in_flight_at L tid \<Longrightarrow> ledger_step r L (Evict tid False) L"
| l_replay: "L tid = Some (q, DeadLettered, n) \<Longrightarrow> ledger_step r L (Replay tid True) (L(tid \<mapsto> (q, Pending, 0)))"
| l_no_replay: "\<not> dead_at L tid \<Longrightarrow> ledger_step r L (Replay tid False) L"

inductive_cases ledger_stepE: "ledger_step r L c L'"

text \<open>The label determines the step; and a finished task stays finished.\<close>

lemma ledger_step_deterministic: "ledger_step r L c L1 \<Longrightarrow> ledger_step r L c L2 \<Longrightarrow> L1 = L2"
  by (induction rule: ledger_step.induct) (auto elim!: ledger_stepE)

lemma ledger_done_step:
  "ledger_step r L c L' \<Longrightarrow> L tid = Some (q, Done, n) \<Longrightarrow> L' tid = Some (q, Done, n)"
  by (auto elim!: ledger_stepE)

section \<open>The abstraction\<close>

definition all_tasks :: "queue_manager \<Rightarrow> task list" where
  "all_tasks qm =
     flat (qm_queues qm) @ dict_values (qm_in_flight qm) @ dict_values (qm_completed qm) @
     dict_values (dlq_tasks (qm_dlq qm))"

definition ledger_line :: "task \<Rightarrow> string \<times> string \<times> task_status \<times> int" where
  "ledger_line t = (task_id t, queue_name t, status t, attempts t)"

definition ledger_of :: "queue_manager \<Rightarrow> ledger" where
  "ledger_of qm = map_of (map ledger_line (all_tasks qm))"

lemma mset_all_tasks:
  "mset (all_tasks qm) =
     pending qm + mset (dict_values (qm_in_flight qm)) + mset (dict_values (qm_completed qm)) +
     mset (dict_values (dlq_tasks (qm_dlq qm)))"
  by (simp add: all_tasks_def pending_def)

lemma all_tasks_pool: "mset (map task_id (all_tasks qm)) = qm_pool qm"
  by (simp add: qm_pool_def mset_all_tasks)

lemma map_of_ledger_mset:
  assumes "no_dups (image_mset task_id (mset xs))" and "mset xs = mset ys"
  shows "map_of (map ledger_line xs) = map_of (map ledger_line ys)"
proof -
  have keys: "map fst (map ledger_line zs) = map task_id zs" for zs
    by (simp add: ledger_line_def)
  have xs: "distinct (map task_id xs)" using assms(1) no_dups_mset [of "map task_id xs"] by simp
  moreover have "mset (map task_id xs) = mset (map task_id ys)" using assms(2) by simp
  ultimately have ys: "distinct (map task_id ys)" by (simp only: mset_eq_imp_distinct_iff [of "map task_id xs"])
  from xs ys have "distinct (map fst (map ledger_line xs))" and "distinct (map fst (map ledger_line ys))"
    by (simp_all only: keys)
  moreover have "set (map ledger_line xs) = set (map ledger_line ys)"
    using mset_eq_setD [OF assms(2)] by simp
  ultimately show ?thesis by (simp only: map_of_inject_set)
qed

text \<open>Replacing one task by another with the same identifier changes one line.\<close>

lemma ledger_replace:
  assumes "no_dups (qm_pool qm)"
    and "mset (all_tasks qm) = add_mset t M" and "mset (all_tasks qm') = add_mset t' M"
    and "task_id t' = task_id t"
  shows "ledger_of qm (task_id t) = Some (queue_name t, status t, attempts t)"
    and "ledger_of qm' = (ledger_of qm)(task_id t \<mapsto> (queue_name t', status t', attempts t'))"
proof -
  obtain ms where M: "M = mset ms" by (metis ex_mset)
  have dups: "no_dups (image_mset task_id (add_mset t M))"
    using assms(1,2) all_tasks_pool [of qm] by simp
  have qm: "ledger_of qm = map_of (map ledger_line (t # ms))"
    unfolding ledger_of_def by (rule map_of_ledger_mset) (use dups assms(2) M in auto)
  have qm': "ledger_of qm' = map_of (map ledger_line (t' # ms))"
    unfolding ledger_of_def by (rule map_of_ledger_mset) (use dups assms(3,4) M in auto)
  show "ledger_of qm (task_id t) = Some (queue_name t, status t, attempts t)"
    by (simp add: qm ledger_line_def)
  show "ledger_of qm' = (ledger_of qm)(task_id t \<mapsto> (queue_name t', status t', attempts t'))"
    using assms(4) by (simp add: qm qm' ledger_line_def)
qed

lemma ledger_new:
  assumes "no_dups (qm_pool qm)" and "task_id t \<notin># qm_pool qm"
    and "mset (all_tasks qm') = add_mset t (mset (all_tasks qm))"
  shows "ledger_of qm (task_id t) = None"
    and "ledger_of qm' = (ledger_of qm)(task_id t \<mapsto> (queue_name t, status t, attempts t))"
proof -
  have pool: "image_mset task_id (mset (all_tasks qm)) = qm_pool qm"
    using all_tasks_pool [of qm] by simp
  have ids: "task_id t \<notin> task_id ` set (all_tasks qm)"
    using assms(2) by (simp flip: pool)
  have dups: "no_dups (image_mset task_id (mset (all_tasks qm)))"
    using assms(1) by (simp add: pool)
  from ids show "ledger_of qm (task_id t) = None"
    by (force simp: ledger_of_def ledger_line_def map_of_eq_None_iff)
  have "ledger_of qm' = map_of (map ledger_line (t # all_tasks qm))"
    unfolding ledger_of_def by (rule map_of_ledger_mset) (use dups ids assms(3) in auto)
  then show "ledger_of qm' = (ledger_of qm)(task_id t \<mapsto> (queue_name t, status t, attempts t))"
    by (simp add: ledger_of_def ledger_line_def)
qed

lemma ledger_same:
  "no_dups (qm_pool qm) \<Longrightarrow> mset (all_tasks qm') = mset (all_tasks qm) \<Longrightarrow> ledger_of qm' = ledger_of qm"
  unfolding ledger_of_def using all_tasks_pool [of qm]
  by (intro map_of_ledger_mset) simp_all

section \<open>Each method implements one rule\<close>

lemma ledger_enqueue:
  assumes "qm_ok qm" and "tid \<notin># qm_pool qm"
  shows "ledger_of qm tid = None"
    and "ledger_of (snd (enqueue tid now q p qm)) = (ledger_of qm)(tid \<mapsto> (q, Pending, 0))"
  using ledger_new [of qm "new_task tid q p now" "snd (enqueue tid now q p qm)"] assms
  by (simp_all add: qm_ok_def enqueue_eq mset_all_tasks)

lemma ledger_enqueue_recovered:
  assumes "qm_ok qm" and "tid \<notin># qm_pool qm"
  shows "ledger_of (snd (enqueue_recovered now q tid p n qm)) = (ledger_of qm)(tid \<mapsto> (q, Pending, n))"
  using ledger_new [of qm "(new_task tid q p now)\<lparr>attempts := n\<rparr>"
      "snd (enqueue_recovered now q tid p n qm)"] assms
  by (simp_all add: qm_ok_def enqueue_recovered_eq mset_all_tasks)

lemma ledger_dequeue:
  assumes "qm_ok qm"
  shows "case fst (dequeue q w qm) of
           None \<Rightarrow> ledger_of (snd (dequeue q w qm)) = ledger_of qm
         | Some v \<Rightarrow>
             ledger_of qm (tv_task_id v) = Some (tv_queue_name v, Pending, tv_attempts v - 1) \<and>
             (tv_queue_name v = q \<or> q = ''*'') \<and>
             ledger_of (snd (dequeue q w qm)) =
               (ledger_of qm)(tv_task_id v \<mapsto> (tv_queue_name v, InFlight, tv_attempts v))"
proof -
  have wf: "qm_wf qm" and dups: "no_dups (qm_pool qm)" using assms by (auto simp: qm_ok_def)
  show ?thesis
  proof (rule dequeue_cases [OF qm_wf_sel(4) [OF wf], of q w])
    assume "fst (dequeue q w qm) = None"
      and "snd (dequeue q w qm) = qm \<or> snd (dequeue q w qm) = ensure_queue q qm"
    then show ?thesis
      using ledger_same [OF dups, of "ensure_queue q qm"] by (auto simp: mset_all_tasks)
  next
    fix q' t ts
    assume queue: "queue_of qm q' = t # ts" and q': "q' = q \<or> q = ''*''"
      and eq: "dequeue q w qm =
         (Some (view_of (take_in_flight w t)),
          (put_queue q' ts qm)\<lparr>qm_in_flight := dict_set (task_id t) (take_in_flight w t) (qm_in_flight qm),
                               total_dequeued := Suc (total_dequeued qm)\<rparr>)"
    have pend: "pending qm = add_mset t (pending (put_queue q' ts qm))" by (rule pending_pop [OF queue])
    have st: "status t = Pending" "queue_name t = q'"
      using qm_wf_queue_of [OF wf, of t q'] queue by (simp_all add: pending_ok_def)
    have "dict_get (qm_in_flight qm) (task_id t) = None"
      using qm_ok_pending_flight [OF assms, of t] pend by simp
    from mset_values_new [OF this, of "take_in_flight w t"]
    have "mset (all_tasks (snd (dequeue q w qm))) = add_mset (take_in_flight w t)
        (mset (all_tasks (put_queue q' ts qm)))"
      by (simp add: mset_all_tasks eq)
    from ledger_replace [OF dups _ this, of t] pend st q' show ?thesis
      by (simp add: eq mset_all_tasks view_of_def take_in_flight_def)
  qed
qed

lemma ledger_flight:
  assumes "qm_ok qm" and "dict_get (qm_in_flight qm) tid = Some t" and "task_id t' = tid"
    and "mset (all_tasks qm') =
           add_mset t' (mset (all_tasks (qm\<lparr>qm_in_flight := dict_del tid (qm_in_flight qm)\<rparr>)))"
  shows "ledger_of qm tid = Some (queue_name t, InFlight, attempts t)"
    and "ledger_of qm' = (ledger_of qm)(tid \<mapsto> (queue_name t', status t', attempts t'))"
proof -
  have wf: "qm_wf qm" and dups: "no_dups (qm_pool qm)" using assms by (auto simp: qm_ok_def)
  have t: "task_id t = tid" "status t = InFlight"
    using qm_wf_flightD [OF wf assms(2)] by (auto simp: task_ok_defs)
  have "mset (all_tasks qm) =
      add_mset t (mset (all_tasks (qm\<lparr>qm_in_flight := dict_del tid (qm_in_flight qm)\<rparr>)))"
    using mset_values_del [OF qm_wf_sel(2) [OF wf] assms(2)] by (simp add: mset_all_tasks)
  from ledger_replace [OF dups this assms(4)] assms(3) t
  show "ledger_of qm tid = Some (queue_name t, InFlight, attempts t)"
    and "ledger_of qm' = (ledger_of qm)(tid \<mapsto> (queue_name t', status t', attempts t'))"
    by simp_all
qed

lemma qm_ok_flight_others:
  assumes "qm_ok qm" and "dict_get (qm_in_flight qm) tid = Some t"
  shows "dict_get (qm_completed qm) tid = None" and "dict_get (dlq_tasks (qm_dlq qm)) tid = None"
proof -
  let ?qm = "qm\<lparr>qm_in_flight := dict_del tid (qm_in_flight qm)\<rparr>"
  have wf: "qm_wf qm" using assms(1) by (simp add: qm_ok_def)
  have "tid \<notin># qm_pool ?qm"
    using qm_ok_flight_pool [OF wf assms(2)] assms(1) by (simp add: qm_ok_def)
  then show "dict_get (qm_completed qm) tid = None" and "dict_get (dlq_tasks (qm_dlq qm)) tid = None"
    using qm_fresh_completed [OF qm_wf_flight_del [OF wf]] qm_fresh_dlq [OF qm_wf_flight_del [OF wf]]
    by force+
qed

lemma ledger_acknowledge:
  assumes "qm_ok qm" and "dict_get (qm_in_flight qm) tid = Some t"
  shows "ledger_of qm tid = Some (queue_name t, InFlight, attempts t)"
    and "ledger_of (snd (acknowledge tid qm)) = (ledger_of qm)(tid \<mapsto> (queue_name t, Done, attempts t))"
proof -
  have id: "task_id t = tid"
    using assms qm_wf_flightD [of qm tid t] by (simp add: qm_ok_def task_ok_defs)
  have "mset (all_tasks (snd (acknowledge tid qm))) = add_mset (t\<lparr>status := Done\<rparr>)
      (mset (all_tasks (qm\<lparr>qm_in_flight := dict_del tid (qm_in_flight qm)\<rparr>)))"
    using assms(2) mset_values_new [OF qm_ok_flight_others(1) [OF assms], of "t\<lparr>status := Done\<rparr>"]
    by (simp add: acknowledge_def mset_all_tasks pending_def)
  from ledger_flight [OF assms _ this] id
  show "ledger_of qm tid = Some (queue_name t, InFlight, attempts t)"
    and "ledger_of (snd (acknowledge tid qm)) = (ledger_of qm)(tid \<mapsto> (queue_name t, Done, attempts t))"
    by simp_all
qed

lemma ledger_requeue_by_id:
  assumes "qm_ok qm" and "dict_get (qm_in_flight qm) tid = Some t"
  shows "ledger_of (snd (requeue_by_id tid qm)) = (ledger_of qm)(tid \<mapsto> (queue_name t, Pending, attempts t))"
proof -
  let ?t = "t\<lparr>status := Pending, assigned_worker := None\<rparr>"
  have id: "task_id t = tid"
    using assms qm_wf_flightD [of qm tid t] by (simp add: qm_ok_def task_ok_defs)
  have "mset (all_tasks (snd (requeue_by_id tid qm))) = add_mset ?t
      (mset (all_tasks (qm\<lparr>qm_in_flight := dict_del tid (qm_in_flight qm)\<rparr>)))"
    using assms(2) by (simp add: requeue_by_id_eq mset_all_tasks)
  from ledger_flight(2) [OF assms _ this] id show ?thesis by simp
qed

lemma ledger_negative_acknowledge:
  assumes "qm_ok qm" and "dict_get (qm_in_flight qm) tid = Some t"
  shows "ledger_of (snd (negative_acknowledge now tid qm)) =
    (ledger_of qm)(tid \<mapsto> (queue_name t, if attempts t < max_retries qm then Pending else DeadLettered, attempts t))"
proof (cases "attempts t < max_retries qm")
  case True
  have "status t = InFlight" using assms qm_wf_flightD [of qm tid t] by (simp add: qm_ok_def task_ok_defs)
  then have eq: "snd (negative_acknowledge now tid qm) =
      (snd (requeue_by_id tid qm))\<lparr>total_nacked := Suc (total_nacked qm)\<rparr>"
    using True assms(2)
    by (simp add: negative_acknowledge_def nack_take_def nack_finish_eq requeue_by_id_eq requeue_eq
        put_queue_def queue_of_def Let_def)
  have "ledger_of (snd (negative_acknowledge now tid qm)) = ledger_of (snd (requeue_by_id tid qm))"
    by (simp add: eq ledger_of_def all_tasks_def)
  with True ledger_requeue_by_id [OF assms] show ?thesis by simp
next
  case False
  let ?t = "dlq_mark now (t\<lparr>status := DeadLettered\<rparr>)"
  have id: "task_id t = tid" using assms qm_wf_flightD [of qm tid t] by (simp add: qm_ok_def task_ok_defs)
  have "mset (all_tasks (snd (negative_acknowledge now tid qm))) = add_mset ?t
      (mset (all_tasks (qm\<lparr>qm_in_flight := dict_del tid (qm_in_flight qm)\<rparr>)))"
    using False assms(2) id mset_values_new [OF qm_ok_flight_others(2) [OF assms], of ?t]
    by (simp add: negative_acknowledge_def nack_take_def nack_finish_eq dlq_add_def Let_def mset_all_tasks)
  from ledger_flight(2) [OF assms _ this] id False show ?thesis by (simp add: dlq_mark_def)
qed

lemma ledger_retry_dead:
  assumes "qm_ok qm" and "dict_get (dlq_tasks (qm_dlq qm)) tid = Some t"
  shows "ledger_of qm tid = Some (queue_name t, DeadLettered, attempts t)"
    and "ledger_of (snd (retry_dead tid qm)) = (ledger_of qm)(tid \<mapsto> (queue_name t, Pending, 0))"
proof -
  have wf: "qm_wf qm" and dups: "no_dups (qm_pool qm)" using assms by (auto simp: qm_ok_def)
  have t: "task_id t = tid" "status t = DeadLettered"
    using dlq_ok_getD [OF qm_wf_sel(1) [OF wf] assms(2)] by (auto simp: dead_task_def)
  let ?M = "mset (all_tasks (qm\<lparr>qm_dlq := (qm_dlq qm)\<lparr>dlq_tasks := dict_del tid (dlq_tasks (qm_dlq qm))\<rparr>\<rparr>))"
  have "mset (all_tasks qm) = add_mset t ?M"
    using mset_values_del [OF dlq_ok_dict [OF qm_wf_sel(1) [OF wf]] assms(2)]
    by (simp add: mset_all_tasks)
  moreover have "mset (all_tasks (snd (retry_dead tid qm))) = add_mset (retry_task t) ?M"
    using qm_retry.retry_found(1) [OF assms(2), of qm]
    by (simp add: retry_dead_def mset_all_tasks retry_task_def)
  ultimately show "ledger_of qm tid = Some (queue_name t, DeadLettered, attempts t)"
    and "ledger_of (snd (retry_dead tid qm)) = (ledger_of qm)(tid \<mapsto> (queue_name t, Pending, 0))"
    using ledger_replace [OF dups, of t ?M "snd (retry_dead tid qm)" "retry_task t"] t
    by (simp_all add: retry_task_def)
qed

section \<open>What the ledger says about the containers\<close>

lemma ledger_of_task:
  assumes "qm_ok qm" and "t \<in> set (all_tasks qm)"
  shows "ledger_of qm (task_id t) = Some (queue_name t, status t, attempts t)"
proof -
  have "distinct (map task_id (all_tasks qm))"
    using assms(1) all_tasks_pool [of qm] no_dups_mset [of "map task_id (all_tasks qm)"] by (simp add: qm_ok_def)
  then have "distinct (map fst (map ledger_line (all_tasks qm)))"
    by (simp add: ledger_line_def comp_def)
  moreover have "(task_id t, queue_name t, status t, attempts t) \<in> set (map ledger_line (all_tasks qm))"
    using assms(2) by (force simp: ledger_line_def)
  ultimately show ?thesis unfolding ledger_of_def by (rule map_of_is_SomeI)
qed

lemma ledger_of_SomeD:
  assumes "ledger_of qm tid = Some (q, st, n)"
  shows "\<exists>t \<in> set (all_tasks qm). task_id t = tid \<and> queue_name t = q \<and> status t = st \<and> attempts t = n"
  using map_of_SomeD [OF assms [unfolded ledger_of_def]] by (auto simp: ledger_line_def)

lemma all_tasks_cases:
  assumes "qm_wf qm" and "t \<in> set (all_tasks qm)"
  obtains "t \<in># pending qm" "status t = Pending"
  | "dict_get (qm_in_flight qm) (task_id t) = Some t" "status t = InFlight"
  | "dict_get (qm_completed qm) (task_id t) = Some t" "status t = Done"
  | "dict_get (dlq_tasks (qm_dlq qm)) (task_id t) = Some t" "status t = DeadLettered"
proof -
  note oks = qm_wf_sel [OF assms(1)]
  consider "t \<in># pending qm" | k where "(k, t) \<in> set (qm_in_flight qm)"
    | k where "(k, t) \<in> set (qm_completed qm)" | k where "(k, t) \<in> set (dlq_tasks (qm_dlq qm))"
    using assms(2) by (auto simp: all_tasks_def pending_def)
  then show thesis
  proof cases
    case 1
    then show thesis using qm_wf_pending [OF assms(1)] that(1) by (simp add: pending_ok_def)
  next
    case (2 k)
    moreover from this have "flight_ok k t" using assms(1) by (auto simp: qm_wf_def)
    ultimately show thesis using dict_get_content [OF oks(2)] that(2) by (simp add: flight_ok_def)
  next
    case (3 k)
    moreover from this have "done_ok k t" using assms(1) by (auto simp: qm_wf_def)
    ultimately show thesis using dict_get_content [OF oks(3)] that(3) by (simp add: done_ok_def)
  next
    case (4 k)
    moreover from this have "dead_task k t" using oks(1) by (auto simp: dlq_ok_def)
    ultimately show thesis using dict_get_content [OF dlq_ok_dict [OF oks(1)]] that(4) by (simp add: dead_task_def)
  qed
qed

lemma not_in_flight_at:
  "qm_wf qm \<Longrightarrow> dict_get (qm_in_flight qm) tid = None \<Longrightarrow> \<not> in_flight_at (ledger_of qm) tid"
  by (auto simp: in_flight_at_def dest!: ledger_of_SomeD elim: all_tasks_cases)

lemma not_dead_at:
  "qm_wf qm \<Longrightarrow> dict_get (dlq_tasks (qm_dlq qm)) tid = None \<Longrightarrow> \<not> dead_at (ledger_of qm) tid"
  by (auto simp: dead_at_def dest!: ledger_of_SomeD elim: all_tasks_cases)

lemma ledger_pendingD:
  assumes "qm_wf qm" and "ledger_of qm tid = Some (q, Pending, n)"
  shows "queue_of qm q \<noteq> []"
proof -
  obtain t where t: "t \<in> set (all_tasks qm)" "queue_name t = q" "status t = Pending"
    using ledger_of_SomeD [OF assms(2)] by blast
  then have "t \<in># pending qm" by (auto elim: all_tasks_cases [OF assms(1)])
  then obtain k ts where k: "(k, ts) \<in> set (qm_queues qm)" "t \<in> set ts"
    by (auto simp: pending_def set_flat)
  then have "k = q" using assms(1) t(2) by (auto simp: qm_wf_def pending_ok_def)
  then have "queue_of qm q = ts"
    using k(1) dict_get_content [OF qm_wf_sel(4) [OF assms(1)], of q ts]
    by (simp add: queue_of_def dict_get_or_def)
  then show ?thesis using k(2) by auto
qed

lemma ledger_pendingI: "qm_ok qm \<Longrightarrow> queue_of qm q \<noteq> [] \<Longrightarrow> \<exists>tid n. ledger_of qm tid = Some (q, Pending, n)"
proof -
  assume ok: "qm_ok qm" and "queue_of qm q \<noteq> []"
  then obtain t where t: "t \<in> set (queue_of qm q)" by (cases "queue_of qm q") auto
  then have "t \<in> set (all_tasks qm)"
    using queue_of_in_pending [OF t] by (simp add: all_tasks_def pending_def)
  moreover have "queue_name t = q" "status t = Pending"
    using ok qm_wf_queue_of [OF _ t] by (auto simp: qm_ok_def pending_ok_def)
  ultimately show ?thesis using ledger_of_task [OF ok] by metis
qed

lemma dequeue_None:
  assumes ok: "qm_ok qm" and none: "fst (dequeue q w qm) = None"
  shows "nothing_for (ledger_of qm) q"
proof (cases "q = ''*''")
  case star: True
  have wf: "qm_wf qm" using ok by (simp add: qm_ok_def)
  have queues: "dict_ok (qm_queues qm)" by (rule qm_wf_sel [OF wf])
  consider "first_nonempty (qm_queues qm) = None" | "first_nonempty (qm_queues qm) = Some []"
    using none star first_nonempty_Some [OF queues]
    by (cases "first_nonempty (qm_queues qm)")
      (fastforce simp: dequeue_def pop_task_def queue_of_def dict_get_or_def Let_def split: if_splits)+
  then show ?thesis
  proof cases
    case 1
    then have "queue_of qm q' = []" for q'
      using queue_of_in_pending [of _ qm q'] by (cases "queue_of qm q'") (auto simp: pending_def first_nonempty_None)
    then show ?thesis using ledger_pendingD [OF wf] star by (auto simp: nothing_for_def)
  next
    case 2
    then have "queue_of qm [] \<noteq> []"
      using first_nonempty_Some [OF queues 2] by (auto simp: queue_of_def dict_get_or_def)
    then show ?thesis using ledger_pendingI [OF ok] star by (auto simp: nothing_for_def)
  qed
next
  case False
  then have "queue_of qm q = []"
    using none by (auto simp: dequeue_def Let_def pop_task_def split: if_splits list.splits)
  then show ?thesis
    using False ok ledger_pendingD [of qm _ q] by (auto simp: nothing_for_def qm_ok_def)
qed

section \<open>Runs of whole methods\<close>

text \<open>The machine whose steps are complete method calls, labelled with the call and what it
  returned; identifiers of new tasks are fresh.\<close>

inductive qm_step :: "queue_manager \<Rightarrow> qm_call \<Rightarrow> queue_manager \<Rightarrow> bool" where
  qm_enqueue: "tid \<notin># qm_pool qm \<Longrightarrow> qm_step qm (Enqueue tid q) (snd (enqueue tid now q p qm))"
| qm_recover:
    "tid \<notin># qm_pool qm \<Longrightarrow> 0 \<le> n \<Longrightarrow>
     qm_step qm (Recover tid q n) (snd (enqueue_recovered now q tid p n qm))"
| qm_dequeue:
    "qm_step qm (Dequeue q (map_option tv_task_id (fst (dequeue q w qm)))) (snd (dequeue q w qm))"
| qm_ack: "qm_step qm (Ack tid (fst (acknowledge tid qm))) (snd (acknowledge tid qm))"
| qm_nack:
    "qm_step qm (Nack tid (fst (negative_acknowledge now tid qm))) (snd (negative_acknowledge now tid qm))"
| qm_evict: "qm_step qm (Evict tid (fst (requeue_by_id tid qm))) (snd (requeue_by_id tid qm))"
| qm_replay: "qm_step qm (Replay tid (fst (retry_dead tid qm))) (snd (retry_dead tid qm))"

lemma qm_step_ok: "qm_ok qm \<Longrightarrow> qm_step qm c qm' \<Longrightarrow> qm_ok qm'"
  by (erule qm_step.cases) (auto intro: qm_ok_ops)

lemma requeue_frame [simp]: "max_retries (snd (requeue_by_id tid qm)) = max_retries qm"
  by (simp add: requeue_by_id_eq split: option.split)

lemma qm_step_retries: "qm_step qm c qm' \<Longrightarrow> max_retries qm' = max_retries qm"
  by (erule qm_step.cases)
    (auto simp: enqueue_eq enqueue_recovered_eq acknowledge_def negative_acknowledge_def nack_take_def
      nack_finish_eq retry_dead_def dlq_retry_def dlq_retry_put_def dlq_take_def Let_def
      split: option.split prod.split)

lemma negative_acknowledge_result:
  assumes "qm_ok qm" and "dict_get (qm_in_flight qm) tid = Some t"
  shows "fst (negative_acknowledge now tid qm) =
    Some (if attempts t < max_retries qm then Requeued tid (attempts t) (max_retries qm) (queue_name t)
          else Dead_lettered tid (attempts t) (queue_name t))"
  using assms qm_wf_flightD [of qm tid t]
  by (auto simp: negative_acknowledge_def nack_take_def nack_finish_eq Let_def qm_ok_def flight_ok_def)

lemma ledger_simulates_step:
  assumes ok: "qm_ok qm" and step: "qm_step qm c qm'"
  shows "ledger_step (max_retries qm) (ledger_of qm) c (ledger_of qm')"
  using step
proof cases
  case (qm_enqueue tid q now p)
  with ledger_enqueue [OF ok, of tid] show ?thesis by (simp add: l_create)
next
  case (qm_recover tid n q now p)
  with ledger_enqueue(1) [OF ok, of tid] ledger_enqueue_recovered [OF ok, of tid] show ?thesis
    by (simp add: l_recover)
next
  case (qm_dequeue q w)
  show ?thesis
  proof (cases "fst (dequeue q w qm)")
    case None
    with ledger_dequeue [OF ok, of q w] dequeue_None [OF ok None] qm_dequeue show ?thesis
      by (simp add: l_idle)
  next
    case (Some v)
    have "ledger_step (max_retries qm) (ledger_of qm) (Dequeue q (Some (tv_task_id v)))
        ((ledger_of qm)(tv_task_id v \<mapsto> (tv_queue_name v, InFlight, tv_attempts v - 1 + 1)))"
      by (rule l_deliver) (use ledger_dequeue [OF ok, of q w] Some in auto)
    with ledger_dequeue [OF ok, of q w] qm_dequeue Some show ?thesis by simp
  qed
next
  case (qm_ack tid)
  then show ?thesis
  proof (cases "dict_get (qm_in_flight qm) tid")
    case None
    with qm_ack ok show ?thesis by (simp add: acknowledge_def l_late_ack not_in_flight_at qm_ok_def)
  next
    case (Some t)
    then have "fst (acknowledge tid qm)" by (simp add: acknowledge_def)
    with ledger_acknowledge [OF ok Some] qm_ack show ?thesis by (simp add: l_complete)
  qed
next
  case (qm_nack tid now)
  then show ?thesis
  proof (cases "dict_get (qm_in_flight qm) tid")
    case None
    with qm_nack ok show ?thesis
      by (simp add: negative_acknowledge_def nack_take_def l_late_nack not_in_flight_at qm_ok_def)
  next
    case (Some t)
    with ledger_negative_acknowledge [OF ok Some, of now] ledger_acknowledge(1) [OF ok Some]
      negative_acknowledge_result [OF ok Some, of now] qm_nack
    show ?thesis by (auto intro: l_retry l_bury)
  qed
next
  case (qm_evict tid)
  then show ?thesis
  proof (cases "dict_get (qm_in_flight qm) tid")
    case None
    with qm_evict ok show ?thesis by (simp add: requeue_by_id_def l_late_evict not_in_flight_at qm_ok_def)
  next
    case (Some t)
    then have "fst (requeue_by_id tid qm)" by (simp add: requeue_by_id_def Let_def)
    with ledger_requeue_by_id [OF ok Some] ledger_acknowledge(1) [OF ok Some] qm_evict
    show ?thesis by (simp add: l_evict)
  qed
next
  case (qm_replay tid)
  then show ?thesis
  proof (cases "dict_get (dlq_tasks (qm_dlq qm)) tid")
    case None
    with qm_replay ok show ?thesis by (simp add: retry_dead_missing l_no_replay not_dead_at qm_ok_def)
  next
    case (Some t)
    with ledger_retry_dead [OF ok Some] qm_replay show ?thesis by (simp add: retry_dead_found l_replay)
  qed
qed

interpretation qm_ledger: forward_simulation qm_step "ledger_step r" ledger_of
  "\<lambda>qm. qm_ok qm \<and> max_retries qm = r" for r
  by unfold_locales (auto dest: qm_step_ok qm_step_retries ledger_simulates_step)

section \<open>Properties\<close>

text \<open>
  C4. The queue manager refines the ledger, call by call. From any well-formed state, let a sequence
  of complete method calls run (enqueue, recovery, dequeue, acknowledge, negative acknowledge,
  eviction, replay, with unused identifiers for new tasks). The same calls with the same
  results are a run of the abstract ledger between the corresponding ledgers: a consumer gets a
  task that was pending in the queue it asked for and comes back empty-handed only when there is
  none; an acknowledgement completes exactly a task in flight; a negative acknowledgement
  returns a task in flight to its queue exactly below the retry limit and buries it exactly at or
  above it, and says so; only an eviction puts a task back regardless of the limit; a replay
  revives exactly a dead-lettered task with a fresh count; and a call that finds no task changes
  nothing.
\<close>

theorem manager_refines_ledger:
  assumes "qm_ok qm" and "run qm_step qm calls qm'"
  shows "qm_ok qm' \<and> run (ledger_step (max_retries qm)) (ledger_of qm) calls (ledger_of qm')"
  using qm_ledger.sim_run [OF assms(2), of "max_retries qm"] assms(1) by simp

text \<open>A task that fails its only attempt: enqueued, delivered, negatively acknowledged.\<close>

lemma failing_run:
  "run qm_step (qm_init 1) [Enqueue ''t'' ''q'', Dequeue ''q'' (Some ''t''), Nack ''t'' (Some (Dead_lettered ''t'' 1 ''q''))]
     (snd (negative_acknowledge 5 ''t'' flying_manager))"
proof -
  let ?qm1 = "snd (enqueue ''t'' 0 ''q'' JNull (qm_init 1))"
  have 1: "run qm_step (qm_init 1) [Enqueue ''t'' ''q''] ?qm1"
    by (rule run_single [where step = qm_step]) (rule qm_enqueue, simp)
  have "map_option tv_task_id (fst (dequeue ''q'' (JStr ''w'') ?qm1)) = Some ''t''"
    by (simp add: enqueue_eq dequeue_def pop_task_def Let_def put_queue_def queue_of_def dict_get_or_def
        ensure_queue_def view_of_def take_in_flight_def qm_init_def)
  then have 2: "qm_step ?qm1 (Dequeue ''q'' (Some ''t'')) flying_manager"
    using qm_dequeue [of ?qm1 "''q''" "JStr ''w''"] by (auto simp: flying_manager_def)
  have "fst (negative_acknowledge 5 ''t'' flying_manager) = Some (Dead_lettered ''t'' 1 ''q'')"
    using negative_acknowledge_result [OF flying_manager_facts(1,3)] flying_manager_facts(2)
    by (simp add: take_in_flight_def)
  then have 3: "qm_step flying_manager (Nack ''t'' (Some (Dead_lettered ''t'' 1 ''q'')))
      (snd (negative_acknowledge 5 ''t'' flying_manager))"
    using qm_nack [of flying_manager "''t''" 5] by simp
  from run_snoc [where step = qm_step, OF run_snoc [where step = qm_step, OF 1 2] 3] show ?thesis by simp
qed

theorem manager_refines_ledger_witness:
  "run (ledger_step 1) (ledger_of (qm_init 1))
     [Enqueue ''t'' ''q'', Dequeue ''q'' (Some ''t''), Nack ''t'' (Some (Dead_lettered ''t'' 1 ''q''))]
     (ledger_of (snd (negative_acknowledge 5 ''t'' flying_manager)))"
  using manager_refines_ledger [OF qm_ok_init failing_run] by (simp add: qm_init_def)

text \<open>
  C14. A completed task is final. Once a task is done, no later method call (a late or repeated
  acknowledgement, a negative acknowledgement, an eviction, a replay) changes its queue, its
  status or its attempt count.
\<close>

theorem done_is_final:
  assumes "qm_ok qm" and "ledger_of qm tid = Some (q, Done, n)" and "run qm_step qm calls qm'"
  shows "ledger_of qm' tid = Some (q, Done, n)"
  by (rule qm_ledger.sim_preserves [where P = "\<lambda>L. L tid = Some (q, Done, n)", OF _ _ assms(2,3)])
    (use ledger_done_step assms(1) in auto)

definition done_manager :: queue_manager where
  "done_manager =
     snd (acknowledge ''t'' (snd (dequeue ''q'' (JStr ''w'') (snd (enqueue ''t'' 0 ''q'' JNull (qm_init 3))))))"

lemma done_manager_ok: "qm_ok done_manager"
  by (simp add: done_manager_def inv_intros)

lemma done_manager_ledger: "ledger_of done_manager ''t'' = Some (''q'', Done, 1)"
  by (simp add: done_manager_def ledger_of_def all_tasks_def ledger_line_def acknowledge_def dequeue_def
      enqueue_eq pop_task_def put_queue_def queue_of_def dict_get_or_def ensure_queue_def qm_init_def
      take_in_flight_def dlq_init_def Let_def)

theorem done_is_final_witness:
  "ledger_of (snd (negative_acknowledge 5 ''t'' done_manager)) ''t'' = Some (''q'', Done, 1)"
  by (rule done_is_final [OF done_manager_ok done_manager_ledger run_single [where step = qm_step]])
    (rule qm_nack)

end
