(* ===== verification/Worker_Registry.thy ===== *)
theory Worker_Registry
  imports Prelude
begin

text \<open>
  \<open>WorkerRegistry\<close> of \<open>broker/worker_registry.py\<close>: which workers are alive, which tasks each one
  holds, the eviction of silent workers and the per-queue latency windows. The registry calls
  back into the queue manager (\<open>requeue_by_id\<close>) when it evicts; that call is the parameter
  \<open>rq\<close> of \<open>evict_dead_workers\<close>, and the locale \<open>requeue_service\<close> states what the registry
  relies on.

  A Python \<open>set\<close> of task identifiers is a list without repetition; the order in which
  iterating the set yields its elements is the parameter \<open>ord\<close>, any function that permutes
  its argument.
\<close>

section \<open>State\<close>

definition HEARTBEAT_TIMEOUT_SECONDS :: time where
  "HEARTBEAT_TIMEOUT_SECONDS = 6"

datatype worker_status = Active | Evicted

record worker_info =
  wi_worker_id :: string
  wi_queues :: "string list"
  wi_address :: "string \<times> int"
  wi_registered_at :: time
  wi_last_heartbeat :: time
  wi_in_flight_tasks :: "string list"
  wi_task_start_times :: "(string, time) dict"
  wi_writer :: "nat option"
  wi_status :: worker_status

record worker_registry =
  wr_workers :: "(string, worker_info) dict"
  wr_queue_latencies :: "(string, time list) dict"
  wr_eviction_task :: bool
  wr_running :: bool
  wr_total_evictions :: nat
  wr_total_tasks_reassigned :: nat

definition wr_init :: worker_registry where
  "wr_init = \<lparr>wr_workers = [], wr_queue_latencies = [], wr_eviction_task = False,
              wr_running = False, wr_total_evictions = 0, wr_total_tasks_reassigned = 0\<rparr>"

text \<open>\<open>set.add\<close> and \<open>set.discard\<close>.\<close>

definition set_add :: "'a \<Rightarrow> 'a list \<Rightarrow> 'a list" where
  "set_add x xs = (if x \<in> set xs then xs else xs @ [x])"

definition set_discard :: "'a \<Rightarrow> 'a list \<Rightarrow> 'a list" where
  "set_discard x xs = filter (\<lambda>y. y \<noteq> x) xs"

section \<open>Registration and heartbeats\<close>

definition register ::
  "time \<Rightarrow> string \<Rightarrow> string \<times> int \<Rightarrow> string list \<Rightarrow> nat option \<Rightarrow> worker_registry \<Rightarrow> bool \<times> worker_registry" where
  "register now wid addr qs wr_conn reg =
     (dict_get (wr_workers reg) wid = None,
      reg\<lparr>wr_workers := dict_set wid
            \<lparr>wi_worker_id = wid, wi_queues = qs, wi_address = addr, wi_registered_at = now,
             wi_last_heartbeat = now, wi_in_flight_tasks = [], wi_task_start_times = [],
             wi_writer = wr_conn, wi_status = Active\<rparr> (wr_workers reg)\<rparr>)"

definition unregister :: "string \<Rightarrow> worker_registry \<Rightarrow> bool \<times> worker_registry" where
  "unregister wid reg =
     (case dict_get (wr_workers reg) wid of
        None \<Rightarrow> (False, reg)
      | Some _ \<Rightarrow> (True, reg\<lparr>wr_workers := dict_del wid (wr_workers reg)\<rparr>))"

definition record_heartbeat :: "time \<Rightarrow> string \<Rightarrow> worker_registry \<Rightarrow> bool \<times> worker_registry" where
  "record_heartbeat now wid reg =
     (case dict_get (wr_workers reg) wid of
        None \<Rightarrow> (False, reg)
      | Some wi \<Rightarrow>
          (True, reg\<lparr>wr_workers :=
             dict_set wid (wi\<lparr>wi_last_heartbeat := now, wi_status := Active\<rparr>) (wr_workers reg)\<rparr>))"

section \<open>Task tracking and latency windows\<close>

definition assign_task :: "time \<Rightarrow> string \<Rightarrow> string \<Rightarrow> worker_registry \<Rightarrow> worker_registry" where
  "assign_task mnow wid tid reg =
     (case dict_get (wr_workers reg) wid of
        None \<Rightarrow> reg
      | Some wi \<Rightarrow>
          reg\<lparr>wr_workers := dict_set wid
                (wi\<lparr>wi_in_flight_tasks := set_add tid (wi_in_flight_tasks wi),
                    wi_task_start_times := dict_set tid mnow (wi_task_start_times wi)\<rparr>)
                (wr_workers reg)\<rparr>)"

definition record_latency :: "string \<Rightarrow> time \<Rightarrow> worker_registry \<Rightarrow> worker_registry" where
  "record_latency q lat reg =
     reg\<lparr>wr_queue_latencies :=
           dict_set q (push_max 100 lat (dict_get_or (wr_queue_latencies reg) q []))
             (wr_queue_latencies reg)\<rparr>"

definition complete_task :: "time \<Rightarrow> string \<Rightarrow> string \<Rightarrow> worker_registry \<Rightarrow> worker_registry" where
  "complete_task mnow wid tid reg =
     (case dict_get (wr_workers reg) wid of
        None \<Rightarrow> reg
      | Some wi \<Rightarrow>
          (let reg1 = reg\<lparr>wr_workers := dict_set wid
                 (wi\<lparr>wi_in_flight_tasks := set_discard tid (wi_in_flight_tasks wi),
                     wi_task_start_times := dict_del tid (wi_task_start_times wi)\<rparr>)
                 (wr_workers reg)\<rparr>
           in case dict_get (wi_task_start_times wi) tid of
                None \<Rightarrow> reg1
              | Some start \<Rightarrow>
                  fold (\<lambda>q. record_latency q ((mnow - start) * 1000)) (wi_queues wi) reg1))"

definition average_latency_ms :: "worker_registry \<Rightarrow> string \<Rightarrow> time" where
  "average_latency_ms reg q =
     (case dict_get (wr_queue_latencies reg) q of
        None \<Rightarrow> 0
      | Some samples \<Rightarrow>
          if samples = [] then 0 else sum_list samples / of_nat (length samples))"

section \<open>Eviction\<close>

definition is_dead :: "time \<Rightarrow> worker_info \<Rightarrow> bool" where
  "is_dead now wi \<longleftrightarrow> now - wi_last_heartbeat wi > HEARTBEAT_TIMEOUT_SECONDS"

text \<open>The inner loop: requeue each task, counting the ones that were still in flight.\<close>

fun requeue_tasks :: "(string \<Rightarrow> 'q \<Rightarrow> bool \<times> 'q) \<Rightarrow> string list \<Rightarrow> nat \<times> 'q \<Rightarrow> nat \<times> 'q" where
  "requeue_tasks rq [] (n, q) = (n, q)"
| "requeue_tasks rq (tid # tids) (n, q) =
     (case rq tid q of (found, q1) \<Rightarrow> requeue_tasks rq tids (if found then Suc n else n, q1))"

text \<open>The outer loop over the evicted workers: reassigned tasks, evictions and the queue manager.\<close>

fun evict_each ::
  "(string \<Rightarrow> 'q \<Rightarrow> bool \<times> 'q) option \<Rightarrow> (string list \<Rightarrow> string list) \<Rightarrow>
   (string \<times> worker_info) list \<Rightarrow> nat \<times> nat \<times> 'q \<Rightarrow> nat \<times> nat \<times> 'q" where
  "evict_each rq ord [] (n, e, q) = (n, e, q)"
| "evict_each rq ord ((wid, wi) # rest) (n, e, q) =
     (case (case rq of None \<Rightarrow> (n, q)
                     | Some f \<Rightarrow> requeue_tasks f (ord (wi_in_flight_tasks wi)) (n, q)) of
        (n1, q1) \<Rightarrow> evict_each rq ord rest (n1, Suc e, q1))"

definition evict_dead_workers ::
  "(string list \<Rightarrow> string list) \<Rightarrow> (string \<Rightarrow> 'q \<Rightarrow> bool \<times> 'q) option \<Rightarrow> time \<Rightarrow>
   worker_registry \<times> 'q \<Rightarrow> worker_registry \<times> 'q" where
  "evict_dead_workers ord rq now s =
     (case s of (reg, q) \<Rightarrow>
        (let dead = filter (\<lambda>(wid, wi). is_dead now wi) (wr_workers reg);
             left = fold (\<lambda>(wid, _). dict_del wid) dead (wr_workers reg)
         in case evict_each rq ord dead (wr_total_tasks_reassigned reg, wr_total_evictions reg, q) of
              (n, e, q') \<Rightarrow>
                (reg\<lparr>wr_workers := left, wr_total_tasks_reassigned := n, wr_total_evictions := e\<rparr>, q')))"

definition stop_eviction_loop :: "worker_registry \<Rightarrow> worker_registry" where
  "stop_eviction_loop reg = reg\<lparr>wr_running := False, wr_eviction_task := False\<rparr>"

text \<open>\<open>start_eviction_loop\<close>. \<open>t\<close> is the clock when the loop goes to sleep. Every sleep lasts at
  least two seconds; the list gives for each one how much later the loop goes on (scheduling, and
  the pass before it), and whether \<open>stop_eviction_loop\<close> has been called meanwhile.\<close>

fun eviction_loop ::
  "(string list \<Rightarrow> string list) \<Rightarrow> (string \<Rightarrow> 'q \<Rightarrow> bool \<times> 'q) option \<Rightarrow> time \<Rightarrow> (time \<times> bool) list \<Rightarrow>
   worker_registry \<times> 'q \<Rightarrow> worker_registry \<times> 'q" where
  "eviction_loop ord rq t [] s = s"
| "eviction_loop ord rq t ((late, stopped) # sleeps) s =
     (let now = t + 2 + late
      in if stopped then (stop_eviction_loop (fst s), snd s)
         else eviction_loop ord rq now sleeps (evict_dead_workers ord rq now s))"

definition start_eviction_loop ::
  "(string list \<Rightarrow> string list) \<Rightarrow> (string \<Rightarrow> 'q \<Rightarrow> bool \<times> 'q) option \<Rightarrow> time \<Rightarrow> (time \<times> bool) list \<Rightarrow>
   worker_registry \<times> 'q \<Rightarrow> worker_registry \<times> 'q" where
  "start_eviction_loop ord rq t sleeps s =
     eviction_loop ord rq t sleeps ((fst s)\<lparr>wr_running := True\<rparr>, snd s)"

section \<open>Queries\<close>

definition get_worker :: "worker_registry \<Rightarrow> string \<Rightarrow> worker_info option" where
  "get_worker reg wid = dict_get (wr_workers reg) wid"

definition get_active_workers :: "worker_registry \<Rightarrow> worker_info list" where
  "get_active_workers reg = filter (\<lambda>wi. wi_status wi = Active) (dict_values (wr_workers reg))"

definition get_worker_count :: "worker_registry \<Rightarrow> nat" where
  "get_worker_count reg = length (wr_workers reg)"

fun worker_status_str :: "worker_status \<Rightarrow> string" where
  "worker_status_str Active = ''active''"
| "worker_status_str Evicted = ''evicted''"

definition wr_get_stats :: "worker_registry \<Rightarrow> (string \<times> json) list" where
  "wr_get_stats reg =
     [(''total_workers'', JInt (int (length (wr_workers reg)))),
      (''active_workers'', JInt (int (length (get_active_workers reg)))),
      (''total_evictions'', JInt (int (wr_total_evictions reg))),
      (''total_tasks_reassigned'', JInt (int (wr_total_tasks_reassigned reg))),
      (''queue_latencies'',
         JDict (map (\<lambda>(name, samples).
           (name, JDict [(''average_ms'', JFloat (average_latency_ms reg name)),
                         (''sample_count'', JInt (int (length samples)))])) (wr_queue_latencies reg))),
      (''workers'',
         JDict (map (\<lambda>(wid, w).
           (wid, JDict [(''status'', JStr (worker_status_str (wi_status w))),
                        (''queues'', JList (map JStr (wi_queues w))),
                        (''last_heartbeat'', JFloat (wi_last_heartbeat w)),
                        (''in_flight_tasks'', JInt (int (length (wi_in_flight_tasks w))))]))
           (wr_workers reg)))]"

section \<open>Invariant\<close>

definition worker_ok :: "string \<Rightarrow> worker_info \<Rightarrow> bool" where
  "worker_ok wid wi \<longleftrightarrow>
     wi_worker_id wi = wid \<and> wi_status wi = Active \<and> distinct (wi_in_flight_tasks wi) \<and>
     dict_ok (wi_task_start_times wi) \<and>
     set (dict_keys (wi_task_start_times wi)) = set (wi_in_flight_tasks wi)"

definition wr_ok :: "worker_registry \<Rightarrow> bool" where
  "wr_ok reg \<longleftrightarrow>
     dict_ok (wr_workers reg) \<and> (\<forall>(wid, wi) \<in> set (wr_workers reg). worker_ok wid wi) \<and>
     dict_ok (wr_queue_latencies reg) \<and>
     (\<forall>(q, xs) \<in> set (wr_queue_latencies reg). xs \<noteq> [] \<and> length xs \<le> 100)"

lemma set_add_facts [simp]:
  "set (set_add x xs) = insert x (set xs)"
  "distinct (set_add x xs) = distinct xs"
  by (auto simp: set_add_def)

lemma set_discard_facts [simp]:
  "set (set_discard x xs) = set xs - {x}"
  "distinct xs \<Longrightarrow> distinct (set_discard x xs)"
  by (auto simp: set_discard_def)

lemma dict_keys_del [dict_simps]: "set (dict_keys (dict_del k d)) = set (dict_keys d) - {k}"
  by (auto simp: dict_del_content image_iff)

lemma wr_ok_workerD: "wr_ok reg \<Longrightarrow> dict_get (wr_workers reg) wid = Some wi \<Longrightarrow> worker_ok wid wi"
  by (auto simp: wr_ok_def dest!: dict_get_in)

lemma wr_ok_worker_set:
  "wr_ok reg \<Longrightarrow> worker_ok wid wi \<Longrightarrow> wr_ok (reg\<lparr>wr_workers := dict_set wid wi (wr_workers reg)\<rparr>)"
  by (auto simp: wr_ok_def dict_simps)

lemma wr_ok_init [simp]: "wr_ok wr_init"
  by (simp add: wr_ok_def wr_init_def)

lemma wr_ok_register [inv_intros]: "wr_ok reg \<Longrightarrow> wr_ok (snd (register now wid addr qs c reg))"
  by (simp add: register_def wr_ok_worker_set worker_ok_def)

lemma wr_ok_unregister [inv_intros]: "wr_ok reg \<Longrightarrow> wr_ok (snd (unregister wid reg))"
  by (auto simp: unregister_def wr_ok_def dict_simps split: option.split)

lemma wr_ok_record_heartbeat [inv_intros]: "wr_ok reg \<Longrightarrow> wr_ok (snd (record_heartbeat now wid reg))"
  using wr_ok_workerD [of reg wid]
  by (auto simp: record_heartbeat_def worker_ok_def intro!: wr_ok_worker_set split: option.split)

lemma wr_ok_assign_task [inv_intros]: "wr_ok reg \<Longrightarrow> wr_ok (assign_task mnow wid tid reg)"
  using wr_ok_workerD [of reg wid]
  by (auto simp: assign_task_def worker_ok_def dict_keys_set simp del: set_map
      intro!: wr_ok_worker_set split: option.split)

lemma push_max_nonempty: "0 < n \<Longrightarrow> push_max n x xs \<noteq> []"
  by (simp add: push_max_def Let_def)

lemma wr_ok_record_latency [inv_intros]: "wr_ok reg \<Longrightarrow> wr_ok (record_latency q lat reg)"
  by (auto simp: wr_ok_def record_latency_def dict_set_content push_max_nonempty length_push_max)

lemma wr_ok_fold_latency: "wr_ok reg \<Longrightarrow> wr_ok (fold (\<lambda>q. record_latency q lat) qs reg)"
  by (induction qs arbitrary: reg) (simp_all add: wr_ok_record_latency)

lemma wr_ok_complete_task [inv_intros]: "wr_ok reg \<Longrightarrow> wr_ok (complete_task mnow wid tid reg)"
  using wr_ok_workerD [of reg wid]
  by (auto simp: complete_task_def Let_def worker_ok_def dict_keys_del simp del: set_map
      intro!: wr_ok_worker_set wr_ok_fold_latency split: option.split)

section \<open>Which workers an eviction pass removes\<close>

lemma fold_dict_del_filter:
  "fold (\<lambda>(k, _). dict_del k) es d = filter (\<lambda>(k, v). k \<notin> fst ` set es) d"
proof (induction es arbitrary: d)
  case Nil
  then show ?case by (simp add: case_prod_beta)
next
  case (Cons e es)
  obtain k v where e: "e = (k, v)" by fastforce
  have "fold (\<lambda>(k, _). dict_del k) (e # es) d = filter (\<lambda>(k, v). k \<notin> fst ` set es) (dict_del k d)"
    using Cons.IH [of "dict_del k d"] by (simp add: e)
  also have "\<dots> = filter (\<lambda>(k, v). k \<notin> fst ` set (e # es)) d"
    unfolding AList.delete_eq filter_filter by (rule filter_cong) (auto simp: e image_iff)
  finally show ?case .
qed

lemma dict_ok_key_unique: "dict_ok d \<Longrightarrow> (k, v) \<in> set d \<Longrightarrow> (k, w) \<in> set d \<Longrightarrow> v = w"
  by (auto simp: dict_ok_def dest: eq_key_imp_eq_value)

lemma dead_keys:
  assumes "dict_ok d" and "(k, v) \<in> set d"
  shows "k \<notin> fst ` set (filter (\<lambda>(k, v). P v) d) \<longleftrightarrow> \<not> P v"
proof -
  have "k \<in> fst ` set (filter (\<lambda>(k, v). P v) d) \<longleftrightarrow> (\<exists>w. (k, w) \<in> set d \<and> P w)"
    by (force simp: image_iff)
  then show ?thesis using dict_ok_key_unique [OF assms(1)] assms(2) by blast
qed

lemma evict_workers:
  assumes "dict_ok (wr_workers reg)"
  shows "wr_workers (fst (evict_dead_workers ord rq now (reg, q))) =
         filter (\<lambda>(wid, wi). \<not> is_dead now wi) (wr_workers reg)"
proof -
  let ?ws = "wr_workers reg"
  have "fold (\<lambda>(k, _). dict_del k) (filter (\<lambda>(wid, wi). is_dead now wi) ?ws) ?ws =
        filter (\<lambda>(wid, wi). \<not> is_dead now wi) ?ws"
    unfolding fold_dict_del_filter
    by (rule filter_cong [OF refl], clarify, rule dead_keys [OF assms])
  then show ?thesis
    by (simp add: evict_dead_workers_def Let_def split: prod.split)
qed

lemma dict_get_filter:
  assumes "dict_ok d"
  shows "dict_get (filter (\<lambda>(k, v). P v) d) k =
         (case dict_get d k of Some v \<Rightarrow> if P v then Some v else None | None \<Rightarrow> None)"
  using assms by (induction d) (auto simp: dict_ok_def map_of_eq_None_iff split: option.split)

lemma evict_get_worker:
  assumes "wr_ok reg"
  shows "get_worker (fst (evict_dead_workers ord rq now (reg, q))) wid =
         (case get_worker reg wid of
            Some wi \<Rightarrow> if is_dead now wi then None else Some wi | None \<Rightarrow> None)"
  using assms evict_workers [of reg ord rq now q]
  by (simp add: get_worker_def wr_ok_def dict_get_filter split: option.split)

lemma evict_latencies [simp]:
  "wr_queue_latencies (fst (evict_dead_workers ord rq now (reg, q))) = wr_queue_latencies reg"
  by (simp add: evict_dead_workers_def Let_def split: prod.split)

lemma wr_ok_evict [inv_intros]:
  "wr_ok reg \<Longrightarrow> wr_ok (fst (evict_dead_workers ord rq now (reg, q)))"
  using evict_workers [of reg ord rq now q]
  by (auto simp: wr_ok_def dict_ok_def distinct_map_filter)

section \<open>What eviction relies on, and what follows for the orphaned tasks\<close>

text \<open>
  The contract of \<open>requeue_by_id\<close>: \<open>flying\<close> are the tasks in flight, \<open>waiting\<close> the pending
  ones. It answers whether the task was in flight, and moves it from the one to the other.
\<close>

locale requeue_service =
  fixes rq :: "string \<Rightarrow> 'q \<Rightarrow> bool \<times> 'q"
    and flying :: "'q \<Rightarrow> string set"
    and waiting :: "'q \<Rightarrow> string multiset"
    and ok :: "'q \<Rightarrow> bool"
  assumes rq_ok: "ok q \<Longrightarrow> ok (snd (rq tid q))"
    and rq_found: "ok q \<Longrightarrow> fst (rq tid q) \<longleftrightarrow> tid \<in> flying q"
    and rq_flying: "ok q \<Longrightarrow> flying (snd (rq tid q)) = flying q - {tid}"
    and rq_waiting: "ok q \<Longrightarrow>
      waiting (snd (rq tid q)) = waiting q + (if tid \<in> flying q then {#tid#} else {#})"
begin

lemma requeue_tasks_moves:
  assumes "ok q" and "requeue_tasks rq tids (n, q) = (n', q')"
  shows "ok q' \<and> flying q' = flying q - set tids \<and>
         waiting q' = waiting q + mset_set (set tids \<inter> flying q) \<and>
         n' = n + card (set tids \<inter> flying q)"
  using assms
proof (induction tids arbitrary: n q)
  case Nil
  then show ?case by simp
next
  case (Cons tid tids)
  obtain b q1 where rq: "rq tid q = (b, q1)" by fastforce
  have ok: "ok q1" and found: "b \<longleftrightarrow> tid \<in> flying q" and fly: "flying q1 = flying q - {tid}"
    and wait: "waiting q1 = waiting q + (if tid \<in> flying q then {#tid#} else {#})"
    using rq_ok [OF Cons.prems(1), of tid] rq_found [OF Cons.prems(1), of tid]
      rq_flying [OF Cons.prems(1), of tid] rq_waiting [OF Cons.prems(1), of tid] rq by simp_all
  have IH: "ok q' \<and> flying q' = flying q1 - set tids \<and>
      waiting q' = waiting q1 + mset_set (set tids \<inter> flying q1) \<and>
      n' = (if b then Suc n else n) + card (set tids \<inter> flying q1)"
    using Cons.IH [OF ok] Cons.prems(2) rq by simp
  show ?case
  proof (cases "tid \<in> flying q")
    case True
    then have split: "set (tid # tids) \<inter> flying q = insert tid (set tids \<inter> flying q1)"
      and new: "tid \<notin> set tids \<inter> flying q1"
      using fly by auto
    show ?thesis unfolding split using IH found fly wait True new by auto
  next
    case False
    then have "set (tid # tids) \<inter> flying q = set tids \<inter> flying q1" using fly by auto
    then show ?thesis using IH found fly wait False by auto
  qed
qed

text \<open>The tasks held by a list of evicted workers.\<close>

lemma evict_each_moves:
  assumes "\<And>xs. set (ord xs) = set xs" and "ok q"
    and "evict_each (Some rq) ord ws (n, e, q) = (n', e', q')"
  shows "ok q' \<and> flying q' = flying q - (\<Union>(_, wi) \<in> set ws. set (wi_in_flight_tasks wi)) \<and>
         waiting q' = waiting q +
           mset_set ((\<Union>(_, wi) \<in> set ws. set (wi_in_flight_tasks wi)) \<inter> flying q) \<and>
         n' = n + card ((\<Union>(_, wi) \<in> set ws. set (wi_in_flight_tasks wi)) \<inter> flying q) \<and>
         e' = e + length ws"
  using assms(2,3)
proof (induction ws arbitrary: n e q)
  case Nil
  then show ?case by simp
next
  case (Cons w ws)
  obtain wid wi where w: "w = (wid, wi)" by fastforce
  let ?T = "set (wi_in_flight_tasks wi)" and ?U = "\<Union>(_, wi) \<in> set ws. set (wi_in_flight_tasks wi)"
  obtain n1 q1 where r: "requeue_tasks rq (ord (wi_in_flight_tasks wi)) (n, q) = (n1, q1)" by fastforce
  from requeue_tasks_moves [OF Cons.prems(1) r] assms(1)
  have ok: "ok q1" and fly: "flying q1 = flying q - ?T"
    and wait: "waiting q1 = waiting q + mset_set (?T \<inter> flying q)" and n1: "n1 = n + card (?T \<inter> flying q)"
    by simp_all
  have IH: "ok q' \<and> flying q' = flying q1 - ?U \<and> waiting q' = waiting q1 + mset_set (?U \<inter> flying q1) \<and>
      n' = n1 + card (?U \<inter> flying q1) \<and> e' = Suc e + length ws"
    using Cons.IH [OF ok, of n1 "Suc e"] Cons.prems(2) w r by simp
  have U: "(\<Union>(_, wi) \<in> set (w # ws). set (wi_in_flight_tasks wi)) = ?T \<union> ?U"
    using w by simp
  have split: "(?T \<union> ?U) \<inter> flying q = (?T \<inter> flying q) \<union> (?U \<inter> flying q1)"
    and disj: "(?T \<inter> flying q) \<inter> (?U \<inter> flying q1) = {}"
    and fin: "finite (?T \<inter> flying q)" "finite (?U \<inter> flying q1)"
    using fly by auto
  show ?case
    unfolding U split using IH fly wait n1 disj fin
    by (auto simp: mset_set_Union card_Un_disjoint)
qed

text \<open>One eviction pass: every task that a silent worker holds and that is still in flight
  becomes pending, exactly once, and nothing else moves.\<close>

lemma evict_dead_workers_moves:
  assumes "\<And>xs. set (ord xs) = set xs" and "ok q"
    and "evict_dead_workers ord (Some rq) now (reg, q) = (reg', q')"
    and "orphans = (\<Union>(_, wi) \<in> {w \<in> set (wr_workers reg). is_dead now (snd w)}. set (wi_in_flight_tasks wi))"
  shows "ok q'" and "flying q' = flying q - orphans"
    and "waiting q' = waiting q + mset_set (orphans \<inter> flying q)"
    and "wr_total_tasks_reassigned reg' = wr_total_tasks_reassigned reg + card (orphans \<inter> flying q)"
    and "wr_total_evictions reg' =
         wr_total_evictions reg + length (filter (\<lambda>(_, wi). is_dead now wi) (wr_workers reg))"
proof -
  let ?dead = "filter (\<lambda>(wid, wi). is_dead now wi) (wr_workers reg)"
  obtain n e where
    run: "evict_each (Some rq) ord ?dead (wr_total_tasks_reassigned reg, wr_total_evictions reg, q) = (n, e, q')"
    and reg': "wr_total_tasks_reassigned reg' = n" "wr_total_evictions reg' = e"
    using assms(3) by (auto simp: evict_dead_workers_def Let_def split: prod.splits)
  have orphans: "(\<Union>(_, wi) \<in> set ?dead. set (wi_in_flight_tasks wi)) = orphans"
    unfolding assms(4) by (rule arg_cong [where f = Union]) (auto simp: image_iff)
  from evict_each_moves [OF assms(1,2) run, unfolded orphans] reg'
  show "ok q'" and "flying q' = flying q - orphans"
    and "waiting q' = waiting q + mset_set (orphans \<inter> flying q)"
    and "wr_total_tasks_reassigned reg' = wr_total_tasks_reassigned reg + card (orphans \<inter> flying q)"
    and "wr_total_evictions reg' =
         wr_total_evictions reg + length (filter (\<lambda>(_, wi). is_dead now wi) (wr_workers reg))"
    by simp_all
qed

end

section \<open>Latency averages\<close>

lemma sum_list_bounds:
  fixes xs :: "rat list"
  assumes "\<And>x. x \<in> set xs \<Longrightarrow> a \<le> x \<and> x \<le> b"
  shows "a * of_nat (length xs) \<le> sum_list xs" and "sum_list xs \<le> b * of_nat (length xs)"
  using assms by (induction xs) (auto simp: algebra_simps add_mono)

text \<open>The average lies between any bounds of the samples in the window.\<close>

lemma average_latency_between:
  assumes "dict_get (wr_queue_latencies reg) q = Some xs" and "xs \<noteq> []"
    and "\<And>x. x \<in> set xs \<Longrightarrow> a \<le> x \<and> x \<le> b"
  shows "a \<le> average_latency_ms reg q \<and> average_latency_ms reg q \<le> b"
  using assms sum_list_bounds [of xs a b]
  by (simp add: average_latency_ms_def pos_le_divide_eq pos_divide_le_eq)

definition latencies_nonneg :: "worker_registry \<Rightarrow> bool" where
  "latencies_nonneg reg \<longleftrightarrow> (\<forall>(q, xs) \<in> set (wr_queue_latencies reg). \<forall>x \<in> set xs. 0 \<le> x)"

lemma average_latency_nonneg:
  assumes "latencies_nonneg reg"
  shows "0 \<le> average_latency_ms reg q"
proof (cases "dict_get (wr_queue_latencies reg) q")
  case None
  then show ?thesis by (simp add: average_latency_ms_def)
next
  case (Some xs)
  have "0 \<le> sum_list xs"
    using assms dict_get_in [OF Some] by (intro sum_list_nonneg) (auto simp: latencies_nonneg_def)
  with Some show ?thesis by (simp add: average_latency_ms_def)
qed

end
