(* ===== verification/Load_Shedder.thy ===== *)
theory Load_Shedder
  imports Prelude
begin

text \<open>
  \<open>TokenBucket\<close> and \<open>AdaptiveLoadShedder\<close> of \<open>broker/load_shedder.py\<close>: one token bucket
  per queue, refilled at a rate that falls with the depth of the queue and the average
  latency of its workers. The two signals are arguments \<open>depth\<close> and \<open>latency\<close> of the
  operations (\<open>queue_manager.queue_depth\<close> and \<open>worker_registry.average_latency_ms\<close> in the
  broker); \<open>now\<close> is the \<open>time.monotonic()\<close> reading of the call. The tuning parameters are
  attributes of the object and stay fields of the record.

  The lemmas show the bucket invariant, the bounds and monotonicity of the rate, the bound on
  the number of admitted requests over any interval, that waiting the advertised time is
  enough, and that queues do not influence each other.
\<close>

section \<open>Token bucket\<close>

record token_bucket =
  tb_capacity :: rat
  tb_nominal_fill_rate :: rat
  tb_tokens :: rat
  tb_last_refill :: time

definition new_bucket :: "time \<Rightarrow> rat \<Rightarrow> rat \<Rightarrow> token_bucket" where
  "new_bucket now cap rate =
     \<lparr>tb_capacity = cap, tb_nominal_fill_rate = rate, tb_tokens = cap, tb_last_refill = now\<rparr>"

definition refill :: "time \<Rightarrow> rat \<Rightarrow> token_bucket \<Rightarrow> token_bucket" where
  "refill now adjusted_rate b =
     (let elapsed = now - tb_last_refill b
      in b\<lparr>tb_tokens := min (tb_capacity b) (tb_tokens b + elapsed * adjusted_rate),
           tb_last_refill := now\<rparr>)"

definition consume :: "token_bucket \<Rightarrow> bool \<times> token_bucket" where
  "consume b =
     (if tb_tokens b \<ge> 1 then (True, b\<lparr>tb_tokens := tb_tokens b - 1\<rparr>) else (False, b))"

section \<open>Load shedder\<close>

record load_shedder =
  ls_buckets :: "(string, token_bucket) dict"
  BASE_FILL_RATE :: rat
  MIN_FILL_RATE :: rat
  QUEUE_DEPTH_THRESHOLD :: int
  LATENCY_THRESHOLD_MS :: rat
  BUCKET_CAPACITY :: rat
  ls_total_allowed :: nat
  ls_total_rejected :: nat

definition ls_init :: load_shedder where
  "ls_init =
     \<lparr>ls_buckets = [], BASE_FILL_RATE = 100, MIN_FILL_RATE = 5, QUEUE_DEPTH_THRESHOLD = 50,
      LATENCY_THRESHOLD_MS = 200, BUCKET_CAPACITY = 200, ls_total_allowed = 0,
      ls_total_rejected = 0\<rparr>"

definition get_or_create_bucket :: "time \<Rightarrow> string \<Rightarrow> load_shedder \<Rightarrow> token_bucket \<times> load_shedder" where
  "get_or_create_bucket now q ls =
     (case dict_get (ls_buckets ls) q of
        Some b \<Rightarrow> (b, ls)
      | None \<Rightarrow>
          (let b = new_bucket now (BUCKET_CAPACITY ls) (BASE_FILL_RATE ls)
           in (b, ls\<lparr>ls_buckets := dict_set q b (ls_buckets ls)\<rparr>)))"

text \<open>The two pressure factors of \<open>_compute_adjusted_rate\<close>. (With a threshold of 0 the code
  would divide by zero; \<open>ls_ok\<close> below keeps the thresholds positive.) As everywhere in the
  development, floats are exact rationals: the code's values differ in the last place, for
  example \<open>0.09999999999999998\<close> for the depth factor 1/10 at depth 500. The properties are stated
  so that they do not turn on the last place.\<close>

definition depth_factor :: "load_shedder \<Rightarrow> nat \<Rightarrow> rat" where
  "depth_factor ls depth =
     (if int depth \<le> QUEUE_DEPTH_THRESHOLD ls then 1
      else
        (let excess = int depth - QUEUE_DEPTH_THRESHOLD ls;
             max_excess = 10 * QUEUE_DEPTH_THRESHOLD ls
         in max (5 / 100) (1 - of_int excess / of_int max_excess)))"

definition latency_factor :: "load_shedder \<Rightarrow> time \<Rightarrow> rat" where
  "latency_factor ls avg_latency_ms =
     (if avg_latency_ms \<le> LATENCY_THRESHOLD_MS ls then 1
      else
        (let excess = avg_latency_ms - LATENCY_THRESHOLD_MS ls;
             max_excess = 10 * LATENCY_THRESHOLD_MS ls
         in max (1 / 10) (1 - excess / max_excess)))"

definition compute_adjusted_rate ::
  "(string \<Rightarrow> nat) \<Rightarrow> (string \<Rightarrow> time) \<Rightarrow> load_shedder \<Rightarrow> string \<Rightarrow> rat" where
  "compute_adjusted_rate depth latency ls q =
     (let adjusted = BASE_FILL_RATE ls * depth_factor ls (depth q) * latency_factor ls (latency q)
      in max (MIN_FILL_RATE ls) adjusted)"

definition check_and_consume ::
  "time \<Rightarrow> (string \<Rightarrow> nat) \<Rightarrow> (string \<Rightarrow> time) \<Rightarrow> string \<Rightarrow> load_shedder \<Rightarrow> (bool \<times> time) \<times> load_shedder" where
  "check_and_consume now depth latency q ls =
     (case get_or_create_bucket now q ls of (b, ls1) \<Rightarrow>
        (let adjusted_rate = compute_adjusted_rate depth latency ls1 q
         in case consume (refill now adjusted_rate b) of (allowed, b') \<Rightarrow>
              (let ls2 = ls1\<lparr>ls_buckets := dict_set q b' (ls_buckets ls1)\<rparr>
               in if allowed
                  then ((True, 0), ls2\<lparr>ls_total_allowed := Suc (ls_total_allowed ls2)\<rparr>)
                  else ((False, 1 / adjusted_rate),
                        ls2\<lparr>ls_total_rejected := Suc (ls_total_rejected ls2)\<rparr>))))"

text \<open>The two read-outs refill the buckets they report.\<close>

definition get_bucket_info ::
  "time \<Rightarrow> (string \<Rightarrow> nat) \<Rightarrow> (string \<Rightarrow> time) \<Rightarrow> string \<Rightarrow> load_shedder \<Rightarrow> (string \<times> json) list \<times> load_shedder" where
  "get_bucket_info now depth latency q ls =
     (case dict_get (ls_buckets ls) q of
        None \<Rightarrow> ([], ls)
      | Some b \<Rightarrow>
          (let adjusted = compute_adjusted_rate depth latency ls q;
               b' = refill now adjusted b
           in ([(''tokens'', JFloat (py_round 2 (tb_tokens b'))),
                (''capacity'', JFloat (tb_capacity b')),
                (''nominal_fill_rate'', JFloat (tb_nominal_fill_rate b')),
                (''adjusted_fill_rate'', JFloat (py_round 2 adjusted))],
               ls\<lparr>ls_buckets := dict_set q b' (ls_buckets ls)\<rparr>)))"

definition refill_all ::
  "time \<Rightarrow> (string \<Rightarrow> nat) \<Rightarrow> (string \<Rightarrow> time) \<Rightarrow> load_shedder \<Rightarrow> (string, token_bucket) dict" where
  "refill_all now depth latency ls =
     map (\<lambda>(name, b). (name, refill now (compute_adjusted_rate depth latency ls name) b)) (ls_buckets ls)"

definition ls_get_stats ::
  "time \<Rightarrow> (string \<Rightarrow> nat) \<Rightarrow> (string \<Rightarrow> time) \<Rightarrow> load_shedder \<Rightarrow> (string \<times> json) list \<times> load_shedder" where
  "ls_get_stats now depth latency ls =
     (let bs = refill_all now depth latency ls
      in ([(''total_allowed'', JInt (int (ls_total_allowed ls))),
           (''total_rejected'', JInt (int (ls_total_rejected ls))),
           (''rejection_rate'',
              JFloat (of_nat (ls_total_rejected ls) /
                      of_nat (max 1 (ls_total_allowed ls + ls_total_rejected ls)))),
           (''buckets'',
              JDict (map (\<lambda>(name, b).
                (name, JDict [(''tokens'', JFloat (py_round 2 (tb_tokens b))),
                              (''capacity'', JFloat (tb_capacity b)),
                              (''adjusted_rate'',
                                 JFloat (py_round 2 (compute_adjusted_rate depth latency ls name)))])) bs))],
          ls\<lparr>ls_buckets := bs\<rparr>))"

section \<open>Invariant\<close>

definition params_ok :: "load_shedder \<Rightarrow> bool" where
  "params_ok ls \<longleftrightarrow>
     0 < MIN_FILL_RATE ls \<and> MIN_FILL_RATE ls \<le> BASE_FILL_RATE ls \<and>
     0 < QUEUE_DEPTH_THRESHOLD ls \<and> 0 < LATENCY_THRESHOLD_MS ls \<and> 1 \<le> BUCKET_CAPACITY ls"

definition bucket_ok :: "load_shedder \<Rightarrow> time \<Rightarrow> token_bucket \<Rightarrow> bool" where
  "bucket_ok ls now b \<longleftrightarrow>
     tb_capacity b = BUCKET_CAPACITY ls \<and> 0 \<le> tb_tokens b \<and> tb_tokens b \<le> tb_capacity b \<and>
     tb_last_refill b \<le> now"

text \<open>The state is well-formed at clock reading \<open>now\<close>: parameters sane, every bucket between
  empty and full and last refilled in the past.\<close>

definition ls_ok :: "load_shedder \<Rightarrow> time \<Rightarrow> bool" where
  "ls_ok ls now \<longleftrightarrow>
     params_ok ls \<and> dict_ok (ls_buckets ls) \<and> (\<forall>(q, b) \<in> set (ls_buckets ls). bucket_ok ls now b)"

lemma ls_ok_init [simp]: "ls_ok ls_init now"
  by (simp add: ls_ok_def ls_init_def params_ok_def)

lemma ls_ok_mono: "ls_ok ls now \<Longrightarrow> now \<le> now' \<Longrightarrow> ls_ok ls now'"
  by (fastforce simp: ls_ok_def bucket_ok_def)

lemma ls_ok_bucketD: "ls_ok ls now \<Longrightarrow> dict_get (ls_buckets ls) q = Some b \<Longrightarrow> bucket_ok ls now b"
  by (auto simp: ls_ok_def dest!: dict_get_in)

section \<open>The adjusted rate\<close>

text \<open>Both factors are 1 up to the threshold and drop linearly to a floor above it.\<close>

lemma drop_bounds: "0 \<le> e \<Longrightarrow> f \<le> 1 \<Longrightarrow> f \<le> max f (1 - e) \<and> max f (1 - e) \<le> (1 :: rat)"
  by simp

lemma depth_excess:
  assumes "params_ok ls" and "QUEUE_DEPTH_THRESHOLD ls \<le> int d" and "d \<le> d'"
  shows "0 \<le> (of_int (int d - QUEUE_DEPTH_THRESHOLD ls) / of_int (10 * QUEUE_DEPTH_THRESHOLD ls) :: rat)"
    and "(of_int (int d - QUEUE_DEPTH_THRESHOLD ls) / of_int (10 * QUEUE_DEPTH_THRESHOLD ls) :: rat) \<le>
         of_int (int d' - QUEUE_DEPTH_THRESHOLD ls) / of_int (10 * QUEUE_DEPTH_THRESHOLD ls)"
proof -
  have pos: "(0 :: rat) < of_int (10 * QUEUE_DEPTH_THRESHOLD ls)"
    using assms(1) unfolding of_int_0_less_iff by (simp add: params_ok_def)
  have "(0 :: rat) \<le> of_int (int d - QUEUE_DEPTH_THRESHOLD ls)"
    using assms(2) unfolding of_int_0_le_iff by simp
  with pos show "0 \<le> (of_int (int d - QUEUE_DEPTH_THRESHOLD ls) / of_int (10 * QUEUE_DEPTH_THRESHOLD ls) :: rat)"
    by (intro divide_nonneg_pos)
  have "(of_int (int d - QUEUE_DEPTH_THRESHOLD ls) :: rat) \<le> of_int (int d' - QUEUE_DEPTH_THRESHOLD ls)"
    using assms(3) unfolding of_int_le_iff by simp
  with pos show "(of_int (int d - QUEUE_DEPTH_THRESHOLD ls) / of_int (10 * QUEUE_DEPTH_THRESHOLD ls) :: rat) \<le>
      of_int (int d' - QUEUE_DEPTH_THRESHOLD ls) / of_int (10 * QUEUE_DEPTH_THRESHOLD ls)"
    by (intro divide_right_mono) simp_all
qed

lemma latency_excess:
  assumes "params_ok ls" and "LATENCY_THRESHOLD_MS ls \<le> l" and "l \<le> l'"
  shows "0 \<le> (l - LATENCY_THRESHOLD_MS ls) / (10 * LATENCY_THRESHOLD_MS ls)"
    and "(l - LATENCY_THRESHOLD_MS ls) / (10 * LATENCY_THRESHOLD_MS ls) \<le>
         (l' - LATENCY_THRESHOLD_MS ls) / (10 * LATENCY_THRESHOLD_MS ls)"
  using assms by (auto simp: params_ok_def intro!: divide_nonneg_pos divide_right_mono)

lemma depth_factor_bounds:
  assumes "params_ok ls"
  shows "5 / 100 \<le> depth_factor ls d \<and> depth_factor ls d \<le> 1"
proof (cases "int d \<le> QUEUE_DEPTH_THRESHOLD ls")
  case False
  then show ?thesis
    using drop_bounds [OF depth_excess(1) [OF assms, of d d], of "5 / 100"]
    unfolding depth_factor_def Let_def by simp
qed (simp add: depth_factor_def)

lemma latency_factor_bounds:
  assumes "params_ok ls"
  shows "1 / 10 \<le> latency_factor ls l \<and> latency_factor ls l \<le> 1"
proof (cases "l \<le> LATENCY_THRESHOLD_MS ls")
  case False
  then show ?thesis
    using drop_bounds [OF latency_excess(1) [OF assms, of l l], of "1 / 10"]
    unfolding latency_factor_def Let_def by simp
qed (simp add: latency_factor_def)

lemma depth_factor_antimono:
  assumes "params_ok ls" and "d \<le> d'"
  shows "depth_factor ls d' \<le> depth_factor ls d"
proof (cases "int d \<le> QUEUE_DEPTH_THRESHOLD ls")
  case True
  then show ?thesis using depth_factor_bounds [OF assms(1), of d'] by (simp add: depth_factor_def)
next
  case False
  then have "\<not> int d' \<le> QUEUE_DEPTH_THRESHOLD ls" using assms(2) by simp
  with False depth_excess(2) [OF assms(1) _ assms(2)] show ?thesis
    unfolding depth_factor_def Let_def by (simp only: if_False) (intro max.mono order_refl, simp)
qed

lemma latency_factor_antimono:
  assumes "params_ok ls" and "l \<le> l'"
  shows "latency_factor ls l' \<le> latency_factor ls l"
proof (cases "l \<le> LATENCY_THRESHOLD_MS ls")
  case True
  then show ?thesis using latency_factor_bounds [OF assms(1), of l'] by (simp add: latency_factor_def)
next
  case False
  then have "\<not> l' \<le> LATENCY_THRESHOLD_MS ls" using assms(2) by simp
  with False latency_excess(2) [OF assms(1) _ assms(2)] show ?thesis
    unfolding latency_factor_def Let_def by (simp only: if_False) (intro max.mono order_refl, simp)
qed

lemma rate_bounds:
  assumes "params_ok ls"
  shows "MIN_FILL_RATE ls \<le> compute_adjusted_rate depth latency ls q"
    and "compute_adjusted_rate depth latency ls q \<le> BASE_FILL_RATE ls"
proof -
  have "depth_factor ls (depth q) * latency_factor ls (latency q) \<le> 1"
    using depth_factor_bounds [OF assms, of "depth q"] latency_factor_bounds [OF assms, of "latency q"]
    by (intro mult_le_one) auto
  then have "BASE_FILL_RATE ls * (depth_factor ls (depth q) * latency_factor ls (latency q)) \<le> BASE_FILL_RATE ls"
    using assms by (intro mult_left_le) (auto simp: params_ok_def)
  then show "compute_adjusted_rate depth latency ls q \<le> BASE_FILL_RATE ls"
    using assms by (simp add: compute_adjusted_rate_def params_ok_def mult.assoc)
qed (simp add: compute_adjusted_rate_def)

lemma rate_pos: "params_ok ls \<Longrightarrow> 0 < compute_adjusted_rate depth latency ls q"
  using rate_bounds(1) [of ls depth latency q] by (simp add: params_ok_def)

lemma rate_antimono:
  assumes "params_ok ls" and "depth q \<le> depth' q" and "latency q \<le> latency' q"
  shows "compute_adjusted_rate depth' latency' ls q \<le> compute_adjusted_rate depth latency ls q"
proof -
  have "depth_factor ls (depth' q) * latency_factor ls (latency' q) \<le>
        depth_factor ls (depth q) * latency_factor ls (latency q)"
    using depth_factor_antimono [OF assms(1,2)] latency_factor_antimono [OF assms(1,3)]
      depth_factor_bounds [OF assms(1), of "depth q"] latency_factor_bounds [OF assms(1), of "latency' q"]
    by (intro mult_mono) auto
  then have "BASE_FILL_RATE ls * (depth_factor ls (depth' q) * latency_factor ls (latency' q)) \<le>
        BASE_FILL_RATE ls * (depth_factor ls (depth q) * latency_factor ls (latency q))"
    using assms(1) by (intro mult_left_mono) (auto simp: params_ok_def)
  then show ?thesis
    unfolding compute_adjusted_rate_def Let_def mult.assoc by (intro max.mono order_refl)
qed

text \<open>Between one and ten times the threshold each factor falls strictly.\<close>

lemma linear_drop_strict:
  fixes T :: rat
  assumes "0 < T" and "T \<le> x" and "x < x'" and "x' \<le> 10 * T" and "f \<le> 1 / 10"
  shows "max f (1 - (x' - T) / (10 * T)) < 1 - (x - T) / (10 * T)"
proof -
  have "(x - T) / (10 * T) < (x' - T) / (10 * T)" using assms by (intro divide_strict_right_mono) auto
  moreover have "(x' - T) / (10 * T) \<le> 9 / 10" using assms by (simp add: field_simps)
  moreover have "f < 1 - e \<and> 1 - e' < 1 - e" if "e < e'" "e' \<le> 9 / 10" for e e' :: rat
    using that assms(5) by linarith
  ultimately show ?thesis by (simp only: max_less_iff_conj)
qed

lemma depth_factor_strict:
  assumes ok: "params_ok ls" and "QUEUE_DEPTH_THRESHOLD ls \<le> int d" and "d < d'"
    and "int d' \<le> 10 * QUEUE_DEPTH_THRESHOLD ls"
  shows "depth_factor ls d' < depth_factor ls d"
proof -
  let ?T = "of_int (QUEUE_DEPTH_THRESHOLD ls) :: rat"
  have "?T \<le> of_int (int d)" and "of_int (int d') \<le> (of_int (10 * QUEUE_DEPTH_THRESHOLD ls) :: rat)"
    using assms(2,4) by (simp_all only: of_int_le_iff)
  then have "max (5 / 100) (1 - (of_nat d' - ?T) / (10 * ?T)) < 1 - (of_nat d - ?T) / (10 * ?T)"
    using ok assms(3) by (intro linear_drop_strict) (simp_all add: params_ok_def)
  moreover have "depth_factor ls d' = max (5 / 100) (1 - (of_nat d' - ?T) / (10 * ?T))"
    using assms(2,3) by (simp add: depth_factor_def Let_def)
  moreover have "1 - (of_nat d - ?T) / (10 * ?T) \<le> depth_factor ls d"
    using assms(2) by (cases "int d = QUEUE_DEPTH_THRESHOLD ls") (auto simp: depth_factor_def Let_def)
  ultimately show ?thesis by (metis order_less_le_trans)
qed

lemma latency_factor_strict:
  assumes "params_ok ls" and "LATENCY_THRESHOLD_MS ls \<le> l" and "l < l'" and "l' \<le> 10 * LATENCY_THRESHOLD_MS ls"
  shows "latency_factor ls l' < latency_factor ls l"
proof -
  let ?T = "LATENCY_THRESHOLD_MS ls"
  have "max (1 / 10) (1 - (l' - ?T) / (10 * ?T)) < 1 - (l - ?T) / (10 * ?T)"
    using assms by (intro linear_drop_strict) (simp_all add: params_ok_def)
  moreover have "latency_factor ls l' = max (1 / 10) (1 - (l' - ?T) / (10 * ?T))"
    using assms(2,3) by (simp add: latency_factor_def Let_def)
  moreover have "1 - (l - ?T) / (10 * ?T) \<le> latency_factor ls l"
    using assms(2) by (cases "l = ?T") (auto simp: latency_factor_def Let_def)
  ultimately show ?thesis by (metis order_less_le_trans)
qed

text \<open>So does the rate, as long as it has not reached its floor.\<close>

lemma rate_strict:
  assumes ok: "params_ok ls" and above: "MIN_FILL_RATE ls < compute_adjusted_rate depth' latency' ls q"
    and "depth_factor ls (depth' q) * latency_factor ls (latency' q) <
         depth_factor ls (depth q) * latency_factor ls (latency q)"
  shows "compute_adjusted_rate depth' latency' ls q < compute_adjusted_rate depth latency ls q"
proof -
  have "BASE_FILL_RATE ls * (depth_factor ls (depth' q) * latency_factor ls (latency' q)) <
        BASE_FILL_RATE ls * (depth_factor ls (depth q) * latency_factor ls (latency q))"
    using ok assms(3) by (intro mult_strict_left_mono) (auto simp: params_ok_def)
  then show ?thesis using above unfolding compute_adjusted_rate_def Let_def mult.assoc by auto
qed

lemma factor_product_strict:
  assumes ok: "params_ok ls" and "d \<le> d'" and "l \<le> l'"
    and "depth_factor ls d' < depth_factor ls d \<or> latency_factor ls l' < latency_factor ls l"
  shows "depth_factor ls d' * latency_factor ls l' < depth_factor ls d * latency_factor ls l"
  using assms(4)
proof
  assume "depth_factor ls d' < depth_factor ls d"
  then show ?thesis
    using latency_factor_antimono [OF ok assms(3)] depth_factor_bounds [OF ok, of d'] latency_factor_bounds [OF ok, of l']
    by (intro mult_less_le_imp_less) auto
next
  assume "latency_factor ls l' < latency_factor ls l"
  then show ?thesis
    using depth_factor_antimono [OF ok assms(2)] depth_factor_bounds [OF ok, of d'] latency_factor_bounds [OF ok, of l']
    by (intro mult_le_less_imp_less) auto
qed

lemma rate_falls_with_depth:
  assumes "params_ok ls" and "MIN_FILL_RATE ls < compute_adjusted_rate depth' latency' ls q"
    and "QUEUE_DEPTH_THRESHOLD ls \<le> int (depth q)" and "depth q < depth' q"
    and "int (depth' q) \<le> 10 * QUEUE_DEPTH_THRESHOLD ls" and "latency q \<le> latency' q"
  shows "compute_adjusted_rate depth' latency' ls q < compute_adjusted_rate depth latency ls q"
  using assms by (intro rate_strict factor_product_strict) (auto intro: depth_factor_strict)

lemma rate_falls_with_latency:
  assumes "params_ok ls" and "MIN_FILL_RATE ls < compute_adjusted_rate depth' latency' ls q"
    and "LATENCY_THRESHOLD_MS ls \<le> latency q" and "latency q < latency' q"
    and "latency' q \<le> 10 * LATENCY_THRESHOLD_MS ls" and "depth q \<le> depth' q"
  shows "compute_adjusted_rate depth' latency' ls q < compute_adjusted_rate depth latency ls q"
  using assms by (intro rate_strict factor_product_strict) (auto intro: latency_factor_strict)

lemma rate_unloaded:
  assumes "params_ok ls" and "int (depth q) \<le> QUEUE_DEPTH_THRESHOLD ls" and "latency q \<le> LATENCY_THRESHOLD_MS ls"
  shows "compute_adjusted_rate depth latency ls q = BASE_FILL_RATE ls"
  using assms by (simp add: compute_adjusted_rate_def depth_factor_def latency_factor_def params_ok_def)

lemma rate_params [simp]:
  "compute_adjusted_rate depth latency (ls\<lparr>ls_buckets := bs\<rparr>) = compute_adjusted_rate depth latency ls"
  "compute_adjusted_rate depth latency (ls\<lparr>ls_total_allowed := n\<rparr>) = compute_adjusted_rate depth latency ls"
  "compute_adjusted_rate depth latency (ls\<lparr>ls_total_rejected := n\<rparr>) = compute_adjusted_rate depth latency ls"
  by (simp_all add: compute_adjusted_rate_def depth_factor_def latency_factor_def fun_eq_iff)

section \<open>The level of a bucket\<close>

text \<open>What a bucket would hold at time \<open>t\<close> if it were refilled at rate \<open>r\<close> from now on; a queue
  without a bucket counts as full, which is what its first request finds.\<close>

definition level :: "rat \<Rightarrow> load_shedder \<Rightarrow> string \<Rightarrow> time \<Rightarrow> rat" where
  "level r ls q t =
     (case dict_get (ls_buckets ls) q of
        None \<Rightarrow> BUCKET_CAPACITY ls
      | Some b \<Rightarrow> min (BUCKET_CAPACITY ls) (tb_tokens b + (t - tb_last_refill b) * r))"

definition bucket_at :: "time \<Rightarrow> string \<Rightarrow> load_shedder \<Rightarrow> token_bucket" where
  "bucket_at now q ls =
     dict_get_or (ls_buckets ls) q (new_bucket now (BUCKET_CAPACITY ls) (BASE_FILL_RATE ls))"

lemma dict_set_twice: "dict_set k v (dict_set k w d) = dict_set k v d"
  by (induction d) auto

lemma check_and_consume_eq:
  "check_and_consume now depth latency q ls =
     (let rate = compute_adjusted_rate depth latency ls q; b = refill now rate (bucket_at now q ls)
      in if tb_tokens b \<ge> 1
         then ((True, 0), ls\<lparr>ls_buckets := dict_set q (b\<lparr>tb_tokens := tb_tokens b - 1\<rparr>) (ls_buckets ls),
                             ls_total_allowed := Suc (ls_total_allowed ls)\<rparr>)
         else ((False, 1 / rate), ls\<lparr>ls_buckets := dict_set q b (ls_buckets ls),
                                     ls_total_rejected := Suc (ls_total_rejected ls)\<rparr>))"
  by (simp add: check_and_consume_def get_or_create_bucket_def bucket_at_def dict_get_or_def Let_def
      consume_def dict_set_twice split: option.split)

lemma bucket_at_ok: "ls_ok ls now \<Longrightarrow> bucket_ok ls now (bucket_at now q ls)"
  using ls_ok_bucketD [of ls now q]
  by (auto simp: bucket_at_def dict_get_or_def bucket_ok_def new_bucket_def ls_ok_def params_ok_def
      split: option.split)

lemma refill_sel [simp]:
  "tb_capacity (refill now r b) = tb_capacity b"
  "tb_nominal_fill_rate (refill now r b) = tb_nominal_fill_rate b"
  "tb_tokens (refill now r b) = min (tb_capacity b) (tb_tokens b + (now - tb_last_refill b) * r)"
  "tb_last_refill (refill now r b) = now"
  by (simp_all add: refill_def Let_def)

lemma bucket_ok_refill: "bucket_ok ls now b \<Longrightarrow> 0 \<le> r \<Longrightarrow> bucket_ok ls now (refill now r b)"
  by (auto simp: bucket_ok_def)

lemma refilled_level:
  "ls_ok ls now \<Longrightarrow> tb_tokens (refill now r (bucket_at now q ls)) = level r ls q now"
  using ls_ok_bucketD [of ls now q]
  by (auto simp: level_def bucket_at_def dict_get_or_def new_bucket_def bucket_ok_def split: option.split)

lemma level_le_capacity: "level r ls q t \<le> BUCKET_CAPACITY ls"
  by (simp add: level_def split: option.split)

lemma level_nonneg: "ls_ok ls now \<Longrightarrow> now \<le> t \<Longrightarrow> 0 \<le> r \<Longrightarrow> 0 \<le> level r ls q t"
  using ls_ok_bucketD [of ls now q]
  by (auto simp: level_def ls_ok_def params_ok_def bucket_ok_def split: option.split)

lemma level_mono_rate:
  assumes "ls_ok ls now" and "now \<le> t" and "r \<le> r'"
  shows "level r ls q t \<le> level r' ls q t"
proof (cases "dict_get (ls_buckets ls) q")
  case (Some b)
  then have "(t - tb_last_refill b) * r \<le> (t - tb_last_refill b) * r'"
    using assms ls_ok_bucketD [of ls now q b] by (intro mult_left_mono) (auto simp: bucket_ok_def)
  with Some show ?thesis by (simp add: level_def)
qed (simp add: level_def)

lemma level_later:
  assumes "t \<le> t'" and "0 \<le> r"
  shows "level r ls q t' \<le> level r ls q t + (t' - t) * r"
proof (cases "dict_get (ls_buckets ls) q")
  case None
  then show ?thesis using assms by (simp add: level_def)
next
  case (Some b)
  have "0 \<le> (t' - t) * r" using assms by simp
  with Some show ?thesis by (simp add: level_def min_def algebra_simps)
qed

text \<open>A request is admitted exactly when the level reaches one token.\<close>

lemma check_allowed_iff:
  "ls_ok ls now \<Longrightarrow>
     fst (fst (check_and_consume now depth latency q ls)) \<longleftrightarrow>
       1 \<le> level (compute_adjusted_rate depth latency ls q) ls q now"
  using refilled_level [of ls now "compute_adjusted_rate depth latency ls q" q]
  by (simp add: check_and_consume_eq Let_def del: refill_sel)

section \<open>Any sequence of calls\<close>

text \<open>The three public operations that touch the buckets, in any order, each with its clock
  reading and the load signals at that moment. The answers of the admission checks are
  collected.\<close>

datatype shed_call = Check string | Info string | Stats

fun shed_step ::
  "time \<Rightarrow> (string \<Rightarrow> nat) \<Rightarrow> (string \<Rightarrow> time) \<Rightarrow> shed_call \<Rightarrow> load_shedder \<Rightarrow> (string \<times> bool) list \<times> load_shedder" where
  "shed_step now depth latency (Check q) ls =
     (case check_and_consume now depth latency q ls of ((ok, _), ls') \<Rightarrow> ([(q, ok)], ls'))"
| "shed_step now depth latency (Info q) ls = ([], snd (get_bucket_info now depth latency q ls))"
| "shed_step now depth latency Stats ls = ([], snd (ls_get_stats now depth latency ls))"

type_synonym timed_call = "time \<times> (string \<Rightarrow> nat) \<times> (string \<Rightarrow> time) \<times> shed_call"

fun shed_run :: "timed_call list \<Rightarrow> load_shedder \<Rightarrow> (string \<times> bool) list \<times> load_shedder" where
  "shed_run [] ls = ([], ls)"
| "shed_run ((now, depth, latency, c) # cs) ls =
     (case shed_step now depth latency c ls of (as, ls1) \<Rightarrow>
        (case shed_run cs ls1 of (bs, ls2) \<Rightarrow> (as @ bs, ls2)))"

definition admitted :: "string \<Rightarrow> (string \<times> bool) list \<Rightarrow> nat" where
  "admitted q as = count_list as (q, True)"

text \<open>Tuning parameters never change.\<close>

definition same_params :: "load_shedder \<Rightarrow> load_shedder \<Rightarrow> bool" where
  "same_params ls ls' \<longleftrightarrow>
     BASE_FILL_RATE ls' = BASE_FILL_RATE ls \<and> MIN_FILL_RATE ls' = MIN_FILL_RATE ls \<and>
     QUEUE_DEPTH_THRESHOLD ls' = QUEUE_DEPTH_THRESHOLD ls \<and>
     LATENCY_THRESHOLD_MS ls' = LATENCY_THRESHOLD_MS ls \<and> BUCKET_CAPACITY ls' = BUCKET_CAPACITY ls"

lemma shed_step_params: "shed_step now depth latency c ls = (as, ls') \<Longrightarrow> same_params ls ls'"
  by (cases c)
    (auto simp: same_params_def check_and_consume_eq get_bucket_info_def ls_get_stats_def Let_def
      split: if_splits option.splits)

lemma same_params_rate:
  "same_params ls ls' \<Longrightarrow> compute_adjusted_rate depth latency ls' = compute_adjusted_rate depth latency ls"
  by (simp add: same_params_def compute_adjusted_rate_def depth_factor_def latency_factor_def fun_eq_iff)

lemma same_params_trans: "same_params a b \<Longrightarrow> same_params b c \<Longrightarrow> same_params a c"
  by (simp add: same_params_def)

lemma ok_params [simp]:
  "bucket_ok (ls\<lparr>ls_buckets := bs\<rparr>) = bucket_ok ls"
  "params_ok (ls\<lparr>ls_buckets := bs\<rparr>) = params_ok ls"
  by (simp_all add: bucket_ok_def params_ok_def fun_eq_iff)

lemma ls_ok_set_bucket:
  "ls_ok ls now \<Longrightarrow> bucket_ok ls now b \<Longrightarrow> ls_ok (ls\<lparr>ls_buckets := dict_set q b (ls_buckets ls)\<rparr>) now"
  by (auto simp: ls_ok_def params_ok_def bucket_ok_def dict_simps)

lemma ls_ok_counters [simp]:
  "ls_ok (ls\<lparr>ls_total_allowed := n\<rparr>) now = ls_ok ls now"
  "ls_ok (ls\<lparr>ls_total_rejected := n\<rparr>) now = ls_ok ls now"
  by (simp_all add: ls_ok_def params_ok_def bucket_ok_def)

lemma ls_ok_params: "ls_ok ls now \<Longrightarrow> params_ok ls"
  by (simp add: ls_ok_def)

lemma ls_ok_check [inv_intros]:
  assumes "ls_ok ls now"
  shows "ls_ok (snd (check_and_consume now depth latency q ls)) now"
proof -
  have "bucket_ok ls now (refill now (compute_adjusted_rate depth latency ls q) (bucket_at now q ls))"
    using assms rate_pos [of ls depth latency q]
    by (intro bucket_ok_refill bucket_at_ok) (simp_all add: ls_ok_params)
  then show ?thesis
    using assms by (auto simp: check_and_consume_eq Let_def bucket_ok_def simp del: refill_sel
        intro!: ls_ok_set_bucket)
qed

lemma ls_ok_info [inv_intros]:
  "ls_ok ls now \<Longrightarrow> ls_ok (snd (get_bucket_info now depth latency q ls)) now"
  using rate_pos [OF ls_ok_params, of ls now depth latency q] ls_ok_bucketD [of ls now q]
  by (auto simp: get_bucket_info_def Let_def intro!: ls_ok_set_bucket bucket_ok_refill split: option.split)

lemma ls_ok_stats [inv_intros]:
  assumes "ls_ok ls now"
  shows "ls_ok (snd (ls_get_stats now depth latency ls)) now"
proof -
  have "bucket_ok ls now (refill now (compute_adjusted_rate depth latency ls q) b)"
    if "(q, b) \<in> set (ls_buckets ls)" for q b
    using assms that rate_pos [OF ls_ok_params [OF assms], of depth latency q]
    by (intro bucket_ok_refill) (auto simp: ls_ok_def)
  then show ?thesis
    using assms by (auto simp: ls_get_stats_def refill_all_def Let_def ls_ok_def dict_ok_def
        case_prod_unfold o_def simp del: refill_sel)
qed

lemma ls_ok_step [inv_intros]:
  assumes "ls_ok ls now" and "shed_step now depth latency c ls = (as, ls')"
  shows "ls_ok ls' now"
  using assms ls_ok_check [of ls now depth latency] ls_ok_info [of ls now depth latency]
    ls_ok_stats [of ls now depth latency]
  by (cases c) (auto split: prod.splits, metis snd_conv)

text \<open>What a call does to the level of a queue, seen at its own time (from above) and at any
  later time (from below).\<close>

lemma get_map_values:
  "dict_get (map (\<lambda>(k, v). (k, f k v)) d) k = map_option (f k) (dict_get d k)"
  by (induction d) auto

lemma level_set:
  "level r (ls\<lparr>ls_buckets := dict_set q b (ls_buckets ls)\<rparr>) q' t =
     (if q' = q then min (BUCKET_CAPACITY ls) (tb_tokens b + (t - tb_last_refill b) * r) else level r ls q' t)"
  by (simp add: level_def split: option.split)

lemma level_counters [simp]:
  "level r (ls\<lparr>ls_total_allowed := n\<rparr>) = level r ls"
  "level r (ls\<lparr>ls_total_rejected := n\<rparr>) = level r ls"
  by (simp_all add: level_def fun_eq_iff split: option.split)

text \<open>The level after a call that is not a check of the queue: unchanged, or the level of the
  refilled bucket.\<close>

lemma level_readout:
  assumes "ls_ok ls now" and "c \<noteq> Check q" and "shed_step now depth latency c ls = (as, ls')"
  shows "level r ls' q t = level r ls q t \<or>
         level r ls' q t = min (BUCKET_CAPACITY ls)
           (level (compute_adjusted_rate depth latency ls q) ls q now + (t - now) * r) \<and>
         dict_get (ls_buckets ls) q \<noteq> None"
proof (cases c)
  case (Check q')
  then show ?thesis
    using assms by (auto simp: check_and_consume_eq Let_def level_set split: if_splits)
next
  case (Info q')
  then show ?thesis
    using assms ls_ok_bucketD [OF assms(1), of q]
    by (auto simp: get_bucket_info_def Let_def level_set level_def bucket_ok_def
        split: option.splits if_splits)
next
  case Stats
  then show ?thesis
    using assms ls_ok_bucketD [OF assms(1), of q]
    by (auto simp: ls_get_stats_def Let_def level_def refill_all_def get_map_values bucket_ok_def
        split: option.splits)
qed

lemma admitted_simps [simp]:
  "admitted q [] = 0" "admitted q (as @ bs) = admitted q as + admitted q bs"
  "admitted q [(q', ok)] = (if q' = q \<and> ok then 1 else 0)"
  by (auto simp: admitted_def)

lemma admitted_other:
  "c \<noteq> Check q \<Longrightarrow> shed_step now depth latency c ls = (as, ls') \<Longrightarrow> admitted q as = 0"
  by (cases c) (auto split: prod.splits)

lemma level_after_check:
  assumes "ls_ok ls now" and "check_and_consume now depth latency q ls = ((ok, w), ls')"
  shows "of_bool ok + level r ls' q now = level (compute_adjusted_rate depth latency ls q) ls q now"
proof -
  let ?r = "compute_adjusted_rate depth latency ls q"
  let ?b = "refill now ?r (bucket_at now q ls)"
  have tokens: "tb_tokens ?b = level ?r ls q now" by (rule refilled_level [OF assms(1)])
  then have "tb_tokens ?b \<le> BUCKET_CAPACITY ls" using level_le_capacity by metis
  then show ?thesis
    using assms(2) tokens by (auto simp: check_and_consume_eq Let_def level_set simp del: refill_sel(3)
        split: if_splits)
qed

lemma level_step_upper:
  assumes ok: "ls_ok ls now" and step: "shed_step now depth latency c ls = (as, ls')"
  shows "of_nat (admitted q as) + level (BASE_FILL_RATE ls) ls' q now \<le> level (BASE_FILL_RATE ls) ls q now"
proof -
  let ?r = "compute_adjusted_rate depth latency ls q" and ?B = "BASE_FILL_RATE ls"
  have le: "level ?r ls q now \<le> level ?B ls q now"
    using rate_bounds(2) [OF ls_ok_params [OF ok]] by (intro level_mono_rate [OF ok]) simp_all
  show ?thesis
  proof (cases "c = Check q")
    case True
    then obtain a w where run: "check_and_consume now depth latency q ls = ((a, w), ls')" and "as = [(q, a)]"
      using step by (auto split: prod.splits)
    with level_after_check [OF ok run, of ?B] le show ?thesis by (auto split: if_splits)
  next
    case False
    then have "level ?B ls' q now \<le> level ?B ls q now"
      using level_readout [OF ok False step, of ?B now] le level_le_capacity [of ?r ls q now] by auto
    then show ?thesis using admitted_other [OF False step] by simp
  qed
qed

lemma level_step_lower:
  assumes ok: "ls_ok ls now" and step: "shed_step now depth latency c ls = (as, ls')" and "c \<noteq> Check q"
    and "0 \<le> r" and "r \<le> compute_adjusted_rate depth latency ls q" and "now \<le> t"
  shows "level r ls q t \<le> level r ls' q t"
proof -
  let ?r = "compute_adjusted_rate depth latency ls q"
  have "level r ls q t \<le> level r ls q now + (t - now) * r"
    by (rule level_later) fact+
  also have "level r ls q now \<le> level ?r ls q now"
    using assms(5) by (intro level_mono_rate [OF ok]) simp_all
  finally have "level r ls q t \<le> level ?r ls q now + (t - now) * r" by simp
  then show ?thesis
    using level_readout [OF ok assms(3) step, of r t] level_le_capacity [of r ls q t] by auto
qed

text \<open>Runs.\<close>

definition call_time :: "timed_call \<Rightarrow> time" where
  "call_time c = fst c"

definition call_rate :: "load_shedder \<Rightarrow> string \<Rightarrow> timed_call \<Rightarrow> rat" where
  "call_rate ls q c = (case c of (_, depth, latency, _) \<Rightarrow> compute_adjusted_rate depth latency ls q)"

definition call_op :: "timed_call \<Rightarrow> shed_call" where
  "call_op c = snd (snd (snd c))"

lemma shed_run_ok:
  assumes "ls_ok ls t0" and "sorted (map call_time cs)" and "\<forall>c \<in> set cs. t0 \<le> call_time c \<and> call_time c \<le> t1"
    and "t0 \<le> t1" and "shed_run cs ls = (as, ls')"
  shows "ls_ok ls' t1 \<and> same_params ls ls'"
  using assms
proof (induction cs arbitrary: ls t0 as)
  case Nil
  then show ?case by (auto simp: same_params_def intro: ls_ok_mono)
next
  case (Cons c cs)
  obtain now depth latency op where c: "c = (now, depth, latency, op)" by (cases c)
  obtain as1 ls1 bs where step: "shed_step now depth latency op ls = (as1, ls1)"
    and rest: "shed_run cs ls1 = (bs, ls')"
    using Cons.prems(5) c by (auto split: prod.splits)
  have "ls_ok ls now" using Cons.prems(1,3) c by (auto simp: call_time_def intro: ls_ok_mono)
  then have "ls_ok ls1 now" using step by (rule ls_ok_step)
  moreover have "\<forall>c \<in> set cs. now \<le> call_time c \<and> call_time c \<le> t1" and "now \<le> t1"
    using Cons.prems(2,3) c by (auto simp: call_time_def)
  ultimately have "ls_ok ls' t1 \<and> same_params ls1 ls'"
    using Cons.IH [of ls1 now bs] Cons.prems(2) rest by simp
  then show ?case using shed_step_params [OF step] same_params_trans by blast
qed

lemma shed_run_upper:
  assumes "ls_ok ls t0" and "sorted (map call_time cs)" and "\<forall>c \<in> set cs. t0 \<le> call_time c \<and> call_time c \<le> t1"
    and "t0 \<le> t1" and "shed_run cs ls = (as, ls')"
  shows "of_nat (admitted q as) \<le> level (BASE_FILL_RATE ls) ls q t0 + (t1 - t0) * BASE_FILL_RATE ls"
  using assms
proof (induction cs arbitrary: ls t0 as)
  case Nil
  then have "0 \<le> BASE_FILL_RATE ls" by (auto simp: ls_ok_def params_ok_def)
  moreover have "0 \<le> level (BASE_FILL_RATE ls) ls q t0"
    using Nil(1) calculation by (intro level_nonneg) auto
  ultimately show ?case using Nil by simp
next
  case (Cons c cs)
  obtain now depth latency op where c: "c = (now, depth, latency, op)" by (cases c)
  obtain as1 ls1 bs where step: "shed_step now depth latency op ls = (as1, ls1)"
    and rest: "shed_run cs ls1 = (bs, ls')" and as: "as = as1 @ bs"
    using Cons.prems(5) c by (auto split: prod.splits)
  let ?B = "BASE_FILL_RATE ls"
  have now: "t0 \<le> now" "now \<le> t1" and later: "\<forall>c \<in> set cs. now \<le> call_time c \<and> call_time c \<le> t1"
    using Cons.prems(2,3) c by (auto simp: call_time_def)
  have ok: "ls_ok ls now" using Cons.prems(1) now(1) by (rule ls_ok_mono)
  then have ok1: "ls_ok ls1 now" using step by (rule ls_ok_step)
  have B: "BASE_FILL_RATE ls1 = ?B" using shed_step_params [OF step] by (simp add: same_params_def)
  have IH: "of_nat (admitted q bs) \<le> level ?B ls1 q now + (t1 - now) * ?B"
    using Cons.IH [OF ok1 _ later now(2) rest] Cons.prems(2) B by simp
  have first: "of_nat (admitted q as1) + level ?B ls1 q now \<le> level ?B ls q now"
    by (rule level_step_upper [OF ok step])
  have "level ?B ls q now \<le> level ?B ls q t0 + (now - t0) * ?B"
    using ok now(1) by (intro level_later) (auto simp: ls_ok_def params_ok_def)
  with IH first show ?case by (simp add: as algebra_simps)
qed

lemma shed_run_lower:
  assumes "ls_ok ls t0" and "sorted (map call_time cs)" and "\<forall>c \<in> set cs. t0 \<le> call_time c \<and> call_time c \<le> t1"
    and "t0 \<le> t1" and "shed_run cs ls = (as, ls')"
    and "0 \<le> r" and "\<forall>c \<in> set cs. call_op c \<noteq> Check q \<and> r \<le> call_rate ls q c"
  shows "level r ls q t1 \<le> level r ls' q t1"
  using assms
proof (induction cs arbitrary: ls t0 as)
  case Nil
  then show ?case by simp
next
  case (Cons c cs)
  obtain now depth latency op where c: "c = (now, depth, latency, op)" by (cases c)
  obtain as1 ls1 bs where step: "shed_step now depth latency op ls = (as1, ls1)"
    and rest: "shed_run cs ls1 = (bs, ls')"
    using Cons.prems(5) c by (auto split: prod.splits)
  have now: "t0 \<le> now" "now \<le> t1" and later: "\<forall>c \<in> set cs. now \<le> call_time c \<and> call_time c \<le> t1"
    using Cons.prems(2,3) c by (auto simp: call_time_def)
  have ok: "ls_ok ls now" using Cons.prems(1) now(1) by (rule ls_ok_mono)
  have "level r ls q t1 \<le> level r ls1 q t1"
    using Cons.prems(6,7) c now(2) by (intro level_step_lower [OF ok step]) (auto simp: call_op_def call_rate_def)
  also have "\<dots> \<le> level r ls' q t1"
    using Cons.IH [OF ls_ok_step [OF ok step] _ later now(2) rest] Cons.prems(2,6,7)
      same_params_rate [OF shed_step_params [OF step]]
    by (auto simp: call_rate_def)
  finally show ?case .
qed

text \<open>After a rejected check at \<open>t0\<close> and any read-outs and checks of other queues, a check at
  \<open>t1\<close> is admitted once the rate has had the time to produce one token.\<close>

lemma admitted_after_wait:
  assumes ok: "ls_ok ls t0" and first: "check_and_consume t0 depth latency q ls = (a, ls1)"
    and run: "shed_run cs ls1 = (as, ls2)" "sorted (map call_time cs)"
      "\<forall>c \<in> set cs. t0 \<le> call_time c \<and> call_time c \<le> t1"
    and wait: "0 < r" "1 / r \<le> t1 - t0"
    and rates: "\<forall>c \<in> set cs. call_op c \<noteq> Check q \<and> r \<le> call_rate ls q c"
      "r \<le> compute_adjusted_rate depth' latency' ls q"
  shows "fst (fst (check_and_consume t1 depth' latency' q ls2))"
proof -
  have "0 < 1 / r" using wait(1) by simp
  with wait(2) have later: "t0 \<le> t1" by linarith
  have ok1: "ls_ok ls1 t0" using ls_ok_check [OF ok, of depth latency q] first by simp
  have same: "same_params ls ls1"
    using shed_step_params [of t0 depth latency "Check q" ls] first by (cases a) auto
  have "1 \<le> (t1 - t0) * r" using wait by (simp add: pos_divide_le_eq)
  moreover obtain b where "dict_get (ls_buckets ls1) q = Some b" and "tb_last_refill b = t0" and "0 \<le> tb_tokens b"
    using first ls_ok_bucketD [OF ok1, of q]
    by (auto simp: check_and_consume_eq Let_def bucket_ok_def split: if_splits)
  moreover have "1 \<le> BUCKET_CAPACITY ls1" using ok1 by (simp add: ls_ok_def params_ok_def)
  ultimately have "1 \<le> level r ls1 q t1" by (simp add: level_def)
  also have "\<dots> \<le> level r ls2 q t1"
    using shed_run_lower [OF ok1 run(2,3) later run(1)] wait(1) rates(1) same_params_rate [OF same]
    by (auto simp: call_rate_def)
  also have "\<dots> \<le> level (compute_adjusted_rate depth' latency' ls2 q) ls2 q t1"
    using shed_run_ok [OF ok1 run(2,3) later run(1)] rates(2) same same_params_rate same_params_trans
    by (intro level_mono_rate) auto
  finally show ?thesis
    using check_allowed_iff [of ls2 t1] shed_run_ok [OF ok1 run(2,3) later run(1)] by simp
qed

lemma rejected_then_admitted:
  assumes "ls_ok ls t0" and "check_and_consume t0 depth latency q ls = ((False, w), ls1)" and "t0 + w \<le> t1"
  shows "fst (check_and_consume t1 depth latency q ls1) = (True, 0)"
proof -
  have "w = 1 / compute_adjusted_rate depth latency ls q"
    using assms(2) by (auto simp: check_and_consume_eq Let_def split: if_splits)
  then have "fst (fst (check_and_consume t1 depth latency q ls1))"
    using admitted_after_wait [OF assms(1,2), of "[]" "[]" ls1 t1 "compute_adjusted_rate depth latency ls q"]
      rate_pos [OF ls_ok_params [OF assms(1)]] assms(3)
    by simp
  then show ?thesis by (auto simp: check_and_consume_eq Let_def split: if_splits)
qed

lemma shed_run_counters:
  "shed_run cs ls = (as, ls') \<Longrightarrow>
     ls_total_allowed ls' = ls_total_allowed ls + length (filter snd as) \<and>
     ls_total_rejected ls' = ls_total_rejected ls + length (filter (\<lambda>a. \<not> snd a) as)"
proof (induction cs arbitrary: ls as)
  case Nil
  then show ?case by simp
next
  case (Cons c cs)
  obtain now depth latency op where c: "c = (now, depth, latency, op)" by (cases c)
  obtain as1 ls1 bs where step: "shed_step now depth latency op ls = (as1, ls1)"
    and rest: "shed_run cs ls1 = (bs, ls')" and as: "as = as1 @ bs"
    using Cons.prems c by (auto split: prod.splits)
  have "ls_total_allowed ls1 = ls_total_allowed ls + length (filter snd as1) \<and>
        ls_total_rejected ls1 = ls_total_rejected ls + length (filter (\<lambda>a. \<not> snd a) as1)"
    using step by (cases op) (auto simp: check_and_consume_eq get_bucket_info_def ls_get_stats_def Let_def
        split: if_splits option.splits)
  with Cons.IH [OF rest] as show ?case by simp
qed

section \<open>The depth signal\<close>

text \<open>What the shedder needs to know of the queues: the depth counts the tasks put there.\<close>

locale depth_signal =
  fixes depth :: "'s \<Rightarrow> string \<Rightarrow> nat"
    and put :: "'a \<Rightarrow> string \<Rightarrow> 's \<Rightarrow> 's"
  assumes depth_put: "depth (put a q s) q' = (if q' = q then Suc (depth s q') else depth s q')"
begin

lemma accepting_slows:
  "params_ok ls \<Longrightarrow>
     compute_adjusted_rate (depth (put a q s)) latency ls q' \<le> compute_adjusted_rate (depth s) latency ls q'"
  by (rule rate_antimono) (simp_all add: depth_put)

lemma accepting_isolated:
  "q' \<noteq> q \<Longrightarrow>
     compute_adjusted_rate (depth (put a q s)) latency ls q' = compute_adjusted_rate (depth s) latency ls q'"
  by (simp add: compute_adjusted_rate_def depth_put)

lemma depth_backlog: "depth (fold (\<lambda>a. put a q) as s) q = depth s q + length as"
  by (induction as arbitrary: s) (simp_all add: depth_put)

lemma depth_elsewhere: "q' \<noteq> q \<Longrightarrow> depth (fold (\<lambda>a. put a q) as s) q' = depth s q'"
  by (induction as arbitrary: s) (simp_all add: depth_put)

text \<open>A backlog of half a threshold above ten times the threshold drives the rate to the
  depth floor.\<close>

lemma backlog_throttles:
  assumes "params_ok ls" and "2 * int (length as) \<ge> 21 * QUEUE_DEPTH_THRESHOLD ls"
  shows "compute_adjusted_rate (depth (fold (\<lambda>a. put a q) as s)) latency ls q \<le>
         max (MIN_FILL_RATE ls) (BASE_FILL_RATE ls * (5 / 100))"
proof -
  let ?d = "depth s q + length as" and ?T = "QUEUE_DEPTH_THRESHOLD ls"
  have T: "0 < ?T" and B: "0 \<le> BASE_FILL_RATE ls" using assms(1) by (auto simp: params_ok_def)
  have "19 * ?T \<le> 2 * (int ?d - ?T)" using assms(2) by simp
  then have "(of_int (19 * ?T) :: rat) \<le> of_int (2 * (int ?d - ?T))" unfolding of_int_le_iff .
  then have "(19 / 20 :: rat) \<le> of_int (int ?d - ?T) / of_int (10 * ?T)"
    using T by (subst pos_le_divide_eq) simp_all
  then have "depth_factor ls ?d \<le> 5 / 100"
    using assms(2) T unfolding depth_factor_def Let_def by auto
  then have "depth_factor ls ?d * latency_factor ls (latency q) \<le> 5 / 100 * 1"
    using latency_factor_bounds [OF assms(1), of "latency q"] depth_factor_bounds [OF assms(1), of ?d]
    by (intro mult_mono) auto
  then have "BASE_FILL_RATE ls * (depth_factor ls ?d * latency_factor ls (latency q)) \<le> BASE_FILL_RATE ls * (5 / 100)"
    using B by (intro mult_left_mono) simp_all
  then show ?thesis
    unfolding compute_adjusted_rate_def Let_def mult.assoc depth_backlog by (intro max.mono order_refl)
qed

end

section \<open>Properties\<close>

text \<open>
  C6. Admission bound. Take any well-formed shedder at time \<open>t0\<close> and any sequence of admission
  checks and read-outs, on any queues and under any load signals, at non-decreasing times
  between \<open>t0\<close> and \<open>t1\<close>. The number of requests admitted for one queue is at most the bucket
  capacity plus the base rate times the length of the interval.
\<close>

theorem admission_bound:
  assumes "ls_ok ls t0" and "sorted (map call_time cs)"
    and "\<forall>c \<in> set cs. t0 \<le> call_time c \<and> call_time c \<le> t1" and "t0 \<le> t1"
    and "shed_run cs ls = (as, ls')"
  shows "of_nat (admitted q as) \<le> BUCKET_CAPACITY ls + BASE_FILL_RATE ls * (t1 - t0)"
  using shed_run_upper [OF assms, of q] level_le_capacity [of "BASE_FILL_RATE ls" ls q t0]
  by (simp add: mult.commute)

theorem admission_bound_witness:
  "of_nat (admitted ''q'' (fst (shed_run
     [(0, \<lambda>_. 0, \<lambda>_. 0, Check ''q''), (1, \<lambda>_. 0, \<lambda>_. 0, Stats), (2, \<lambda>_. 60, \<lambda>_. 0, Check ''q'')] ls_init)))
     \<le> BUCKET_CAPACITY ls_init + BASE_FILL_RATE ls_init * (2 - 0)"
  by (rule admission_bound [OF ls_ok_init, where ls' = "snd (shed_run
     [(0, \<lambda>_. 0, \<lambda>_. 0, Check ''q''), (1, \<lambda>_. 0, \<lambda>_. 0, Stats), (2, \<lambda>_. 60, \<lambda>_. 0, Check ''q'')] ls_init)"
     and cs = "[(0, \<lambda>_. 0, \<lambda>_. 0, Check ''q''), (1, \<lambda>_. 0, \<lambda>_. 0, Stats), (2, \<lambda>_. 60, \<lambda>_. 0, Check ''q'')]"])
    (simp_all add: call_time_def)

text \<open>
  C19. The \<open>retry_after\<close> hint is honest. A request for a queue is rejected at \<open>t0\<close> with hint
  \<open>w\<close>. Let only read-outs and requests for other queues follow, so that nobody else takes the
  token in between, and let the queue's fill rate not fall below the rate at the rejection. Then
  the next request for that queue at any time after \<open>t0 + w\<close> is admitted. (Tokens and rates are
  exact here. In doubles \<open>(1 / rate) * rate\<close> can be one rounding below 1, so that a request
  at \<open>t0 + w\<close> sharp may still be refused.)
\<close>

theorem retry_after_suffices:
  assumes "ls_ok ls t0" and "check_and_consume t0 depth latency q ls = ((False, w), ls1)"
    and "shed_run cs ls1 = (as, ls2)" and "sorted (map call_time cs)"
    and "\<forall>c \<in> set cs. t0 \<le> call_time c \<and> call_time c \<le> t1"
    and "\<forall>c \<in> set cs. call_op c \<noteq> Check q \<and> compute_adjusted_rate depth latency ls q \<le> call_rate ls q c"
    and "compute_adjusted_rate depth latency ls q \<le> compute_adjusted_rate depth' latency' ls q"
    and "t0 + w < t1"
  shows "fst (check_and_consume t1 depth' latency' q ls2) = (True, 0)"
proof -
  have "w = 1 / compute_adjusted_rate depth latency ls q"
    using assms(2) by (auto simp: check_and_consume_eq Let_def split: if_splits)
  then have "fst (fst (check_and_consume t1 depth' latency' q ls2))"
    using admitted_after_wait [OF assms(1-5) _ _ assms(6,7)] rate_pos [OF ls_ok_params [OF assms(1)]] assms(8)
    by simp
  then show ?thesis by (auto simp: check_and_consume_eq Let_def split: if_splits)
qed

definition drained_shedder :: load_shedder where
  "drained_shedder =
     ls_init\<lparr>ls_buckets := [(''q'', (new_bucket 0 200 100)\<lparr>tb_tokens := 1 / 2\<rparr>)]\<rparr>"

lemma drained_shedder_ok: "ls_ok drained_shedder 0"
  by (simp add: drained_shedder_def ls_init_def ls_ok_def params_ok_def bucket_ok_def new_bucket_def dict_ok_def)

lemma drained_rate: "compute_adjusted_rate (\<lambda>_. 0) (\<lambda>_. 0) drained_shedder q = 100"
  by (simp add: drained_shedder_def compute_adjusted_rate_def depth_factor_def latency_factor_def ls_init_def)

theorem retry_after_suffices_witness:
  "\<exists>ls1. check_and_consume 0 (\<lambda>_. 0) (\<lambda>_. 0) ''q'' drained_shedder = ((False, 1 / 100), ls1) \<and>
     fst (check_and_consume (1 / 50) (\<lambda>_. 0) (\<lambda>_. 0) ''q'' (snd (ls_get_stats (1 / 100) (\<lambda>_. 0) (\<lambda>_. 0) ls1))) = (True, 0)"
proof -
  let ?D = "drained_shedder" and ?cs = "[(1 / 100, \<lambda>_. 0, \<lambda>_. 0, Stats)] :: timed_call list"
  obtain ls1 where first: "check_and_consume 0 (\<lambda>_. 0) (\<lambda>_. 0) ''q'' ?D = ((False, 1 / 100), ls1)"
    by (simp add: check_and_consume_eq Let_def drained_rate)
      (simp add: bucket_at_def drained_shedder_def dict_get_or_def new_bucket_def)
  have run: "shed_run ?cs ls1 = ([], snd (ls_get_stats (1 / 100) (\<lambda>_. 0) (\<lambda>_. 0) ls1))"
    by simp
  have "fst (check_and_consume (1 / 50) (\<lambda>_. 0) (\<lambda>_. 0) ''q'' (snd (ls_get_stats (1 / 100) (\<lambda>_. 0) (\<lambda>_. 0) ls1))) = (True, 0)"
    by (rule retry_after_suffices [OF drained_shedder_ok first run])
      (simp_all add: call_time_def call_op_def call_rate_def)
  with first show ?thesis by blast
qed

text \<open>
  C18. No starvation. However deep the queue and however slow its workers at any moment, a
  request for a queue that comes at least \<open>1 / MIN_FILL_RATE\<close> after the previous request for
  it is admitted.
\<close>

theorem no_starvation:
  assumes "ls_ok ls t0" and "check_and_consume t0 depth latency q ls = (a, ls1)"
    and "shed_run cs ls1 = (as, ls2)" and "sorted (map call_time cs)"
    and "\<forall>c \<in> set cs. t0 \<le> call_time c \<and> call_time c \<le> t1 \<and> call_op c \<noteq> Check q"
    and "t0 + 1 / MIN_FILL_RATE ls \<le> t1"
  shows "fst (check_and_consume t1 depth' latency' q ls2) = (True, 0)"
proof -
  have params: "params_ok ls" using assms(1) by (rule ls_ok_params)
  have "fst (fst (check_and_consume t1 depth' latency' q ls2))"
    by (rule admitted_after_wait [OF assms(1-4), where r = "MIN_FILL_RATE ls"])
      (use assms(5,6) params rate_bounds(1) [OF params] in \<open>auto simp: call_rate_def params_ok_def\<close>)
  then show ?thesis by (auto simp: check_and_consume_eq Let_def split: if_splits)
qed

theorem no_starvation_witness:
  "fst (check_and_consume (1 / 5) (\<lambda>_. 100000) (\<lambda>_. 100000) ''q''
     (snd (check_and_consume 0 (\<lambda>_. 0) (\<lambda>_. 0) ''q'' drained_shedder))) = (True, 0)"
proof -
  obtain a ls1 where first: "check_and_consume 0 (\<lambda>_. 0) (\<lambda>_. 0) ''q'' drained_shedder = (a, ls1)"
    by fastforce
  have "MIN_FILL_RATE drained_shedder = 5" by (simp add: drained_shedder_def ls_init_def)
  then show ?thesis
    using no_starvation [OF drained_shedder_ok first, of "[]" "[]" ls1 "1 / 5" "\<lambda>_. 100000" "\<lambda>_. 100000"] first
    by simp
qed

text \<open>
  C30. The rate adapts. With sane parameters the adjusted rate always lies between \<open>MIN_FILL_RATE\<close>
  and \<open>BASE_FILL_RATE\<close> and never rises when the queue gets deeper or its workers slower. It is the
  full \<open>BASE_FILL_RATE\<close> while depth and latency are within their thresholds. Above, it really
  falls: until it reaches \<open>MIN_FILL_RATE\<close>, every further task between one and ten times the depth
  threshold lowers it strictly, and so does every additional millisecond of average latency between
  one and ten times the latency threshold.
\<close>

theorem adaptive_rate:
  assumes "params_ok ls" and "depth q \<le> depth' q" and "latency q \<le> latency' q"
    and rate: "rate = compute_adjusted_rate depth latency ls q"
    and rate': "rate' = compute_adjusted_rate depth' latency' ls q"
  shows "MIN_FILL_RATE ls \<le> rate' \<and> rate' \<le> rate \<and> rate \<le> BASE_FILL_RATE ls \<and>
         (int (depth q) \<le> QUEUE_DEPTH_THRESHOLD ls \<and> latency q \<le> LATENCY_THRESHOLD_MS ls \<longrightarrow>
            rate = BASE_FILL_RATE ls) \<and>
         (MIN_FILL_RATE ls < rate' \<and> QUEUE_DEPTH_THRESHOLD ls \<le> int (depth q) \<and> depth q < depth' q \<and>
          int (depth' q) \<le> 10 * QUEUE_DEPTH_THRESHOLD ls \<longrightarrow> rate' < rate) \<and>
         (MIN_FILL_RATE ls < rate' \<and> LATENCY_THRESHOLD_MS ls \<le> latency q \<and> latency q + 1 \<le> latency' q \<and>
          latency' q \<le> 10 * LATENCY_THRESHOLD_MS ls \<longrightarrow> rate' < rate)"
  using rate_bounds [OF assms(1)] rate_antimono [OF assms(1), of depth q depth' latency latency'] rate_unloaded [OF assms(1), of depth q latency]
    rate_falls_with_depth [OF assms(1), of depth' latency' q depth latency] assms(2,3)
    rate_falls_with_latency [OF assms(1), of depth' latency' q latency depth]
  unfolding rate rate' by auto

theorem adaptive_rate_witness:
  "compute_adjusted_rate (\<lambda>_. 120) (\<lambda>_. 300) ls_init ''q'' < compute_adjusted_rate (\<lambda>_. 100) (\<lambda>_. 250) ls_init ''q''"
proof -
  have "params_ok ls_init" by (simp add: ls_init_def params_ok_def)
  moreover have "MIN_FILL_RATE ls_init < compute_adjusted_rate (\<lambda>_. 120) (\<lambda>_. 300) ls_init ''q''"
    by (simp add: ls_init_def compute_adjusted_rate_def depth_factor_def latency_factor_def Let_def)
  ultimately show ?thesis
    using adaptive_rate [of ls_init "\<lambda>_. 100" "''q''" "\<lambda>_. 120" "\<lambda>_. 250" "\<lambda>_. 300", OF _ _ _ refl refl]
    by (simp add: ls_init_def)
qed

end
