(* ===== verification/Admission.thy ===== *)
theory Admission
  imports Queue_Manager Worker_Registry Load_Shedder
begin

text \<open>
  The load shedder wired to the queue manager and the worker registry, as \<open>BrokerServer\<close> wires
  them: \<open>queue_depth\<close> counts what \<open>enqueue\<close> adds, so the queue manager provides the depth
  signal, and a growing backlog throttles the producers of its queue and of no other.
\<close>

definition accept :: "string \<times> time \<times> json \<Rightarrow> string \<Rightarrow> queue_manager \<Rightarrow> queue_manager" where
  "accept a q qm = (case a of (tid, now, p) \<Rightarrow> snd (enqueue tid now q p qm))"

interpretation backlog: depth_signal queue_depth accept
  by unfold_locales (auto simp: queue_depth_def accept_def enqueue_eq split: prod.split)

section \<open>Properties\<close>

text \<open>
  C25. Backpressure. With the default parameters, once 526 tasks have been accepted on a queue
  and none of them consumed, the fill rate of that queue is exactly the floor of five tokens per
  second, whatever the worker latency; the rate of every other queue is what it was before.
\<close>

theorem backlog_backpressure:
  assumes "526 \<le> length as" and "q' \<noteq> q"
  shows "compute_adjusted_rate (queue_depth (fold (\<lambda>a. accept a q) as qm)) latency ls_init q = 5 \<and>
         compute_adjusted_rate (queue_depth (fold (\<lambda>a. accept a q) as qm)) latency ls_init q' =
           compute_adjusted_rate (queue_depth qm) latency ls_init q'"
proof -
  let ?qm = "fold (\<lambda>a. accept a q) as qm"
  have ok: "params_ok ls_init" by (simp add: params_ok_def ls_init_def)
  have "compute_adjusted_rate (queue_depth ?qm) latency ls_init q \<le> 5"
    using backlog.backlog_throttles [OF ok, of as q qm latency] assms(1) by (simp add: ls_init_def)
  moreover have "5 \<le> compute_adjusted_rate (queue_depth ?qm) latency ls_init q"
    using rate_bounds(1) [OF ok, of "queue_depth ?qm" latency q] by (simp add: ls_init_def)
  moreover have "compute_adjusted_rate (queue_depth ?qm) latency ls_init q' =
      compute_adjusted_rate (queue_depth qm) latency ls_init q'"
    using backlog.depth_elsewhere [OF assms(2), of as qm] by (simp add: compute_adjusted_rate_def)
  ultimately show ?thesis by (blast intro: order_antisym)
qed

theorem backlog_backpressure_witness:
  "compute_adjusted_rate
     (queue_depth (fold (\<lambda>a. accept a ''jobs'') (replicate 526 (''t'', 0, JNull)) (qm_init 3)))
     (\<lambda>_. 0) ls_init ''jobs'' = 5"
  using backlog_backpressure [of "replicate 526 (''t'', 0, JNull)" "''other''" "''jobs''" "qm_init 3" "\<lambda>_. 0"]
  by simp

end
