(* ===== verification/Eviction.thy ===== *)
theory Eviction
  imports Queue_Manager Worker_Registry
begin

text \<open>
  The worker registry on top of the queue manager: \<open>requeue_by_id\<close> meets the contract
  \<open>requeue_service\<close>, so an eviction pass of \<open>evict_dead_workers\<close> (\<open>broker/worker_registry.py\<close>)
  returns the tasks of a silent worker to their queues, once each, and loses none. The
  heartbeat theorems bound when a worker is evicted: never while it has been heard from in
  the last six seconds, and within eight seconds of its last heartbeat, plus what a sleep of
  the loop may overrun.
\<close>

section \<open>The queue manager provides the requeue service\<close>

definition flying_ids :: "queue_manager \<Rightarrow> string set" where
  "flying_ids qm = set (dict_keys (qm_in_flight qm))"

definition pending_ids :: "queue_manager \<Rightarrow> string multiset" where
  "pending_ids qm = image_mset task_id (pending qm)"

lemma flying_ids_get: "tid \<in> flying_ids qm \<longleftrightarrow> dict_get (qm_in_flight qm) tid \<noteq> None"
  by (simp add: flying_ids_def dict_get_None)

interpretation qm_requeue: requeue_service requeue_by_id flying_ids pending_ids qm_ok
proof unfold_locales
  fix qm tid
  assume ok: "qm_ok qm"
  then have wf: "qm_wf qm" by (simp add: qm_ok_def)
  show "qm_ok (snd (requeue_by_id tid qm))"
    using ok by (rule qm_ok_ops)
  show "fst (requeue_by_id tid qm) \<longleftrightarrow> tid \<in> flying_ids qm"
    by (simp add: requeue_by_id_eq flying_ids_get split: option.split)
  show "flying_ids (snd (requeue_by_id tid qm)) = flying_ids qm - {tid}"
  proof (rule set_eqI)
    fix k
    show "k \<in> flying_ids (snd (requeue_by_id tid qm)) \<longleftrightarrow> k \<in> flying_ids qm - {tid}"
      unfolding Diff_iff flying_ids_get by (auto simp: requeue_by_id_eq split: option.split)
  qed
  have "task_id t = tid" if "dict_get (qm_in_flight qm) tid = Some t" for t
    using qm_wf_flightD [OF wf that] by (simp add: flight_ok_def)
  then show "pending_ids (snd (requeue_by_id tid qm)) =
      pending_ids qm + (if tid \<in> flying_ids qm then {#tid#} else {#})"
    by (auto simp: requeue_by_id_eq pending_ids_def flying_ids_get split: option.split)
qed

text \<open>Requeuing never touches the set of known tasks.\<close>

lemma requeue_tasks_pool:
  "qm_wf qm \<Longrightarrow> requeue_tasks requeue_by_id tids (n, qm) = (n', qm') \<Longrightarrow> qm_wf qm' \<and> qm_pool qm' = qm_pool qm"
proof (induction tids arbitrary: n qm)
  case Nil
  then show ?case by simp
next
  case (Cons tid tids)
  obtain b qm1 where r: "requeue_by_id tid qm = (b, qm1)" by fastforce
  have "qm_wf qm1" and "qm_pool qm1 = qm_pool qm"
    using qm_wf_requeue_by_id [OF Cons.prems(1), of tid] qm_pool_requeue_by_id [OF Cons.prems(1), of tid] r
    by simp_all
  with Cons.IH [of qm1] Cons.prems(2) r show ?case by simp
qed

lemma evict_each_pool:
  "qm_wf qm \<Longrightarrow> evict_each (Some requeue_by_id) ord ws (n, e, qm) = (n', e', qm') \<Longrightarrow>
     qm_pool qm' = qm_pool qm"
proof (induction ws arbitrary: n e qm)
  case Nil
  then show ?case by simp
next
  case (Cons w ws)
  obtain wid wi where w: "w = (wid, wi)" by fastforce
  obtain n1 qm1 where r: "requeue_tasks requeue_by_id (ord (wi_in_flight_tasks wi)) (n, qm) = (n1, qm1)"
    by fastforce
  from requeue_tasks_pool [OF Cons.prems(1) r] Cons.IH [of qm1 n1 "Suc e"] Cons.prems(2) w r
  show ?case by simp
qed

lemma evict_pool:
  "qm_wf qm \<Longrightarrow> evict_dead_workers ord (Some requeue_by_id) now (reg, qm) = (reg', qm') \<Longrightarrow>
     qm_pool qm' = qm_pool qm"
  by (auto simp: evict_dead_workers_def Let_def split: prod.splits dest: evict_each_pool)

section \<open>When a worker is evicted\<close>

text \<open>The loop with nobody stopping it, and the clock readings at its wake-ups.\<close>

abbreviation undisturbed :: "time list \<Rightarrow> (time \<times> bool) list" where
  "undisturbed ds \<equiv> map (\<lambda>d. (d, False)) ds"

fun wakes :: "time \<Rightarrow> time list \<Rightarrow> time list" where
  "wakes t [] = []"
| "wakes t (d # ds) = (t + 2 + d) # wakes (t + 2 + d) ds"

lemma length_wakes [simp]: "length (wakes t ds) = length ds"
  by (induction ds arbitrary: t) simp_all

lemma wakes_take: "wakes t (take n ds) = take n (wakes t ds)"
  by (induction ds arbitrary: t n) (simp_all add: take_Cons split: nat.split)

lemma eviction_loop_snoc:
  "eviction_loop ord rq t (undisturbed (ds @ [d])) s =
     evict_dead_workers ord rq (last (wakes t (ds @ [d]))) (eviction_loop ord rq t (undisturbed ds) s)"
proof (induction ds arbitrary: t s)
  case Nil
  then show ?case by simp
next
  case (Cons a ds)
  have "wakes (t + 2 + a) (ds @ [d]) \<noteq> []" by (simp flip: length_0_conv)
  then show ?case using Cons by (simp add: Let_def)
qed

lemma wr_ok_eviction_loop: "wr_ok (fst s) \<Longrightarrow> wr_ok (fst (eviction_loop ord rq t (undisturbed ds) s))"
proof (induction ds arbitrary: t s)
  case (Cons d ds)
  then show ?case using wr_ok_evict [of "fst s" ord rq "t + 2 + d" "snd s"] by (simp add: Let_def)
qed simp

lemma eviction_loop_keeps:
  assumes "wr_ok (fst s)" and "get_worker (fst s) wid = Some wi"
    and "\<And>u. u \<in> set (wakes t ds) \<Longrightarrow> \<not> is_dead u wi"
  shows "get_worker (fst (eviction_loop ord rq t (undisturbed ds) s)) wid = Some wi"
  using assms
proof (induction ds arbitrary: t s)
  case Nil
  then show ?case by simp
next
  case (Cons d ds)
  obtain reg q where s: "s = (reg, q)" by fastforce
  have "get_worker (fst (evict_dead_workers ord rq (t + 2 + d) s)) wid = Some wi"
    using Cons.prems evict_get_worker [of reg ord rq "t + 2 + d" q wid] by (simp add: s)
  moreover have "wr_ok (fst (evict_dead_workers ord rq (t + 2 + d) s))"
    using Cons.prems(1) s by (simp add: wr_ok_evict)
  ultimately show ?case using Cons.IH Cons.prems(3) by (simp add: Let_def)
qed

text \<open>A sleep of two seconds that overruns by at most \<open>lag\<close>: the first wake-up after a deadline
  comes at most \<open>2 + lag\<close> after it.\<close>

lemma first_wake_after:
  fixes D :: rat
  assumes "t \<le> D" and "\<And>d. d \<in> set ds \<Longrightarrow> 0 \<le> d \<and> d \<le> lag" and "D < t + 2 * of_nat (length ds)"
  shows "\<exists>n < length ds. (\<forall>u \<in> set (take n (wakes t ds)). u \<le> D) \<and>
           D < wakes t ds ! n \<and> wakes t ds ! n \<le> D + 2 + lag"
  using assms
proof (induction ds arbitrary: t)
  case Nil
  then show ?case by simp
next
  case (Cons d ds)
  have d: "0 \<le> d" "d \<le> lag" using Cons.prems(2) by simp_all
  show ?case
  proof (cases "D < t + 2 + d")
    case True
    then show ?thesis using Cons.prems(1) d by (intro exI [of _ 0]) simp
  next
    case False
    moreover have "D < t + 2 + d + 2 * of_nat (length ds)"
      using Cons.prems(3) d(1) by (simp add: algebra_simps)
    ultimately obtain n where "n < length ds" "\<forall>u \<in> set (take n (wakes (t + 2 + d) ds)). u \<le> D"
        "D < wakes (t + 2 + d) ds ! n" "wakes (t + 2 + d) ds ! n \<le> D + 2 + lag"
      using Cons.IH [of "t + 2 + d"] Cons.prems(2) by auto
    then show ?thesis using False by (intro exI [of _ "Suc n"]) simp
  qed
qed

section \<open>A worker that falls silent with a task in hand\<close>

definition silent_manager :: queue_manager where
  "silent_manager =
     snd (dequeue ''jobs'' (JStr ''w1'') (snd (enqueue ''t1'' 0 ''jobs'' JNull (qm_init 3))))"

definition silent_registry :: worker_registry where
  "silent_registry =
     assign_task 0 ''w1'' ''t1'' (snd (register 0 ''w1'' (''host'', 9) [''jobs''] None wr_init))"

lemma silent_manager_ok: "qm_ok silent_manager"
  by (simp add: silent_manager_def inv_intros)

lemma silent_registry_ok: "wr_ok silent_registry"
  by (simp add: silent_registry_def inv_intros)

lemma silent_registry_workers:
  "wr_workers silent_registry =
     [(''w1'', \<lparr>wi_worker_id = ''w1'', wi_queues = [''jobs''], wi_address = (''host'', 9),
               wi_registered_at = 0, wi_last_heartbeat = 0, wi_in_flight_tasks = [''t1''],
               wi_task_start_times = [(''t1'', 0)], wi_writer = None, wi_status = Active\<rparr>)]"
  by (simp add: silent_registry_def assign_task_def register_def wr_init_def set_add_def)

lemma silent_manager_ids: "flying_ids silent_manager = {''t1''}" "pending_ids silent_manager = {#}"
  by (simp_all add: silent_manager_def flying_ids_def pending_ids_def pending_def dequeue_def Let_def
      enqueue_eq pop_task_def ensure_queue_def put_queue_def queue_of_def dict_get_or_def qm_init_def
      take_in_flight_def)

section \<open>Properties\<close>

text \<open>
  C5. Eviction safety. One pass of \<open>evict_dead_workers\<close>, wired to the queue manager as the
  broker wires it, over a well-formed registry and manager: the manager stays well-formed and
  knows the same tasks; every task a silent worker holds leaves the in-flight registry; the
  ones still in flight are pending afterwards, one new pending entry each and no other; the
  reassignment counter grows by exactly their number and the eviction counter by the number
  of silent workers. The order in which a Python set is iterated (\<open>ord\<close>) does not matter.
\<close>

theorem eviction_returns_tasks:
  assumes "\<And>xs. set (ord xs) = set xs" and "qm_ok qm" and "wr_ok reg"
    and run: "evict_dead_workers ord (Some requeue_by_id) now (reg, qm) = (reg', qm')"
    and orphans: "orphans = (\<Union>(_, wi) \<in> {w \<in> set (wr_workers reg). is_dead now (snd w)}. set (wi_in_flight_tasks wi))"
  shows "qm_ok qm' \<and> qm_pool qm' = qm_pool qm \<and>
         flying_ids qm' = flying_ids qm - orphans \<and>
         pending_ids qm' = pending_ids qm + mset_set (orphans \<inter> flying_ids qm) \<and>
         wr_total_tasks_reassigned reg' = wr_total_tasks_reassigned reg + card (orphans \<inter> flying_ids qm) \<and>
         wr_total_evictions reg' + length (wr_workers reg') = wr_total_evictions reg + length (wr_workers reg)"
proof -
  have "length (filter (\<lambda>(_, wi). is_dead now wi) (wr_workers reg)) +
        length (filter (\<lambda>(_, wi). \<not> is_dead now wi) (wr_workers reg)) = length (wr_workers reg)"
    using sum_length_filter_compl [of "\<lambda>(_, wi). is_dead now wi" "wr_workers reg"]
    by (simp add: case_prod_unfold)
  moreover have "wr_workers reg' = filter (\<lambda>(_, wi). \<not> is_dead now wi) (wr_workers reg)"
    using evict_workers [of reg ord "Some requeue_by_id" now qm] run assms(3) by (simp add: wr_ok_def)
  moreover have "qm_wf qm" using assms(2) by (simp add: qm_ok_def)
  ultimately show ?thesis
    using qm_requeue.evict_dead_workers_moves [OF assms(1,2) run orphans] evict_pool [OF _ run]
    by simp
qed

theorem eviction_returns_tasks_witness:
  "\<exists>reg' qm'. evict_dead_workers id (Some requeue_by_id) 7 (silent_registry, silent_manager) = (reg', qm') \<and>
     flying_ids qm' = {} \<and> pending_ids qm' = {#''t1''#} \<and> wr_total_tasks_reassigned reg' = 1"
proof -
  obtain reg' qm' where
    run: "evict_dead_workers id (Some requeue_by_id) 7 (silent_registry, silent_manager) = (reg', qm')"
    by fastforce
  have dead: "{w. w = (''w1'', wi) \<and> is_dead 7 (snd w)} = {(''w1'', wi)}" if "wi_last_heartbeat wi = 0" for wi
    using that by (auto simp: is_dead_def HEARTBEAT_TIMEOUT_SECONDS_def)
  have "wr_total_tasks_reassigned silent_registry = 0"
    by (simp add: silent_registry_def assign_task_def register_def wr_init_def)
  with eviction_returns_tasks [OF _ silent_manager_ok silent_registry_ok run refl] show ?thesis
    by (intro exI [of _ reg'] exI [of _ qm'])
      (simp add: run silent_registry_workers silent_manager_ids dead)
qed

text \<open>
  C15. Who is evicted. A pass at time \<open>now\<close> removes a registered worker exactly when its last
  heartbeat is more than six seconds old, and leaves every other entry as it is; in
  particular a worker whose heartbeat was recorded at most six seconds ago is kept.
\<close>

theorem eviction_exactly_silent:
  assumes "wr_ok reg"
  shows "get_worker (fst (evict_dead_workers ord rq now (reg, q))) wid =
         (case get_worker reg wid of
            None \<Rightarrow> None
          | Some wi \<Rightarrow> if now > wi_last_heartbeat wi + 6 then None else Some wi)"
  using evict_get_worker [OF assms, of ord rq now q wid]
  by (simp add: is_dead_def HEARTBEAT_TIMEOUT_SECONDS_def algebra_simps split: option.split)

theorem eviction_exactly_silent_witness:
  "get_worker (fst (evict_dead_workers id (Some requeue_by_id) 6 (silent_registry, silent_manager))) ''w1'' =
     get_worker silent_registry ''w1'' \<and>
   get_worker (fst (evict_dead_workers id (Some requeue_by_id) 7 (silent_registry, silent_manager))) ''w1'' = None"
  unfolding eviction_exactly_silent [OF silent_registry_ok]
  by (simp add: get_worker_def silent_registry_workers)

text \<open>
  C16. Detection window. A registered worker was last heard from at time \<open>h\<close>. Let the eviction loop
  go to sleep at a time \<open>t\<close> not later than \<open>h + 6\<close>, let no sleep overrun its two seconds by more
  than \<open>lag\<close>, and let nobody stop the loop for enough rounds to pass \<open>h + 6\<close>. Then there is a
  round whose wake-up lies after \<open>h + 6\<close> and not after \<open>h + 8 + lag\<close>, which evicts the worker;
  before it the worker stays registered. With punctual sleeps this is the interval from six to
  eight seconds the documentation names.
\<close>

theorem eviction_within_eight_seconds:
  assumes "wr_ok reg" and "get_worker reg wid = Some wi" and "wi_last_heartbeat wi = h"
    and "t \<le> h + 6" and "\<And>d. d \<in> set ds \<Longrightarrow> 0 \<le> d \<and> d \<le> lag" and "h + 6 < t + 2 * of_nat (length ds)"
  shows "\<exists>n < length ds. h + 6 < wakes t ds ! n \<and> wakes t ds ! n \<le> h + 8 + lag \<and>
           get_worker (fst (start_eviction_loop ord rq t (undisturbed (take n ds)) (reg, q))) wid = Some wi \<and>
           get_worker (fst (start_eviction_loop ord rq t (undisturbed (take (Suc n) ds)) (reg, q))) wid = None"
proof -
  from first_wake_after [OF assms(4-6)] obtain n where n: "n < length ds"
    and early: "\<forall>u \<in> set (wakes t (take n ds)). u \<le> h + 6"
    and late: "h + 6 < wakes t ds ! n" "wakes t ds ! n \<le> h + 6 + 2 + lag"
    by (auto simp: wakes_take)
  let ?s = "(reg\<lparr>wr_running := True\<rparr>, q)" and ?r = "eviction_loop ord rq t (undisturbed (take n ds))"
  have ok: "wr_ok (fst ?s)" and got: "get_worker (fst ?s) wid = Some wi"
    using assms(1,2) by (simp_all add: wr_ok_def get_worker_def)
  have "\<not> is_dead u wi" if "u \<in> set (wakes t (take n ds))" for u
    using early that assms(3) by (fastforce simp: is_dead_def HEARTBEAT_TIMEOUT_SECONDS_def)
  from eviction_loop_keeps [OF ok got this] have keeps: "get_worker (fst (?r ?s)) wid = Some wi" .
  have "wr_ok (fst (?r ?s))" by (rule wr_ok_eviction_loop [OF ok])
  from evict_get_worker [OF this, of ord rq "wakes t ds ! n" "snd (?r ?s)" wid] keeps late(1) assms(3)
  have gone: "get_worker (fst (evict_dead_workers ord rq (wakes t ds ! n) (?r ?s))) wid = None"
    by (simp add: is_dead_def HEARTBEAT_TIMEOUT_SECONDS_def)
  have split: "take (Suc n) ds = take n ds @ [ds ! n]" by (rule take_Suc_conv_app_nth [OF n])
  have "last (wakes t (take n ds @ [ds ! n])) = wakes t ds ! n"
    unfolding split [symmetric] wakes_take using n by (simp add: take_Suc_conv_app_nth)
  then have "eviction_loop ord rq t (undisturbed (take (Suc n) ds)) ?s =
      evict_dead_workers ord rq (wakes t ds ! n) (?r ?s)"
    unfolding split eviction_loop_snoc by simp
  then show ?thesis using n late keeps gone by (intro exI [of _ n]) (simp add: start_eviction_loop_def)
qed

text \<open>Four sleeps, the second half a second late.\<close>

definition sample_sleeps :: "time list" where
  "sample_sleeps = [0, 1 / 2, 0, 0]"

theorem eviction_within_eight_seconds_witness:
  "\<exists>n < length sample_sleeps. 0 + 6 < wakes 1 sample_sleeps ! n \<and> wakes 1 sample_sleeps ! n \<le> 0 + 8 + 1 / 2 \<and>
     get_worker (fst (start_eviction_loop id (Some requeue_by_id) 1 (undisturbed (take (Suc n) sample_sleeps))
       (silent_registry, silent_manager))) ''w1'' = None"
proof -
  obtain wi where wi: "get_worker silent_registry ''w1'' = Some wi" "wi_last_heartbeat wi = 0"
    by (simp add: get_worker_def silent_registry_workers)
  have sleeps: "0 \<le> d \<and> d \<le> 1 / 2" if "d \<in> set sample_sleeps" for d
    using that by (auto simp: sample_sleeps_def)
  have "1 \<le> 0 + (6 :: time)" and "0 + 6 < 1 + 2 * (of_nat (length sample_sleeps) :: time)"
    by (simp_all add: sample_sleeps_def)
  from eviction_within_eight_seconds [OF silent_registry_ok wi this(1) sleeps this(2), of id "Some requeue_by_id" silent_manager]
  show ?thesis by blast
qed

end
