(* ===== verification/Metrics.thy ===== *)
theory Metrics
  imports Prelude
begin

text \<open>
  \<open>MetricsCollector\<close> of \<open>broker/metrics_collector.py\<close>: sliding windows of event times for
  the rates, a bounded window of latency samples per queue for the percentiles, and lifetime
  counters. Every method reads the monotonic clock once (\<open>now\<close>) and holds the lock for its
  whole effect. A \<open>defaultdict\<close> is a dictionary whose missing keys read as the default.

  The lemmas show that the lazily pruned window gives the same rate as the full history of
  events, that the percentiles are samples, ordered by rank, and the counter invariants.
\<close>

section \<open>State\<close>

definition THROUGHPUT_WINDOW_SECONDS :: time where
  "THROUGHPUT_WINDOW_SECONDS = 10"

definition MAX_LATENCY_SAMPLES :: nat where
  "MAX_LATENCY_SAMPLES = 1000"

record metrics =
  mc_start_time :: time
  mc_produce_times :: "(string, time list) dict"
  mc_ack_times :: "(string, time list) dict"
  mc_dequeue_timestamps :: "(string, time) dict"
  mc_task_queues :: "(string, string) dict"
  mc_latency_samples :: "(string, time list) dict"
  mc_total_produced :: "(string, nat) dict"
  mc_total_consumed :: "(string, nat) dict"
  mc_total_acked :: "(string, nat) dict"
  mc_total_nacked :: "(string, nat) dict"
  mc_total_dlq :: "(string, nat) dict"

definition mc_init :: "time \<Rightarrow> metrics" where
  "mc_init now =
     \<lparr>mc_start_time = now, mc_produce_times = [], mc_ack_times = [], mc_dequeue_timestamps = [],
      mc_task_queues = [], mc_latency_samples = [], mc_total_produced = [], mc_total_consumed = [],
      mc_total_acked = [], mc_total_nacked = [], mc_total_dlq = []\<rparr>"

fun prune_window :: "time list \<Rightarrow> time \<Rightarrow> time list" where
  "prune_window [] now = []"
| "prune_window (t # ts) now =
     (if t < now - THROUGHPUT_WINDOW_SECONDS then prune_window ts now else t # ts)"

text \<open>\<open>reset\<close> leaves the tracked dequeues alone.\<close>

definition mc_reset :: "time \<Rightarrow> metrics \<Rightarrow> metrics" where
  "mc_reset now mc =
     mc\<lparr>mc_produce_times := [], mc_ack_times := [], mc_latency_samples := [], mc_total_produced := [],
        mc_total_consumed := [], mc_total_acked := [], mc_total_nacked := [], mc_total_dlq := [],
        mc_start_time := now\<rparr>"

section \<open>Recording events\<close>

text \<open>\<open>d[k].append(x)\<close> and \<open>d[k] += 1\<close> on a \<open>defaultdict\<close>.\<close>

definition dict_append :: "'k \<Rightarrow> 'a \<Rightarrow> ('k, 'a list) dict \<Rightarrow> ('k, 'a list) dict" where
  "dict_append k x d = dict_set k (dict_get_or d k [] @ [x]) d"

definition dict_incr :: "'k \<Rightarrow> ('k, nat) dict \<Rightarrow> ('k, nat) dict" where
  "dict_incr k d = dict_set k (Suc (dict_get_or d k 0)) d"

definition record_produce :: "time \<Rightarrow> string \<Rightarrow> metrics \<Rightarrow> metrics" where
  "record_produce now q mc =
     mc\<lparr>mc_produce_times := dict_append q now (mc_produce_times mc),
        mc_total_produced := dict_incr q (mc_total_produced mc)\<rparr>"

definition record_consume :: "time \<Rightarrow> string \<Rightarrow> string \<Rightarrow> metrics \<Rightarrow> metrics" where
  "record_consume now q tid mc =
     mc\<lparr>mc_dequeue_timestamps := dict_set tid now (mc_dequeue_timestamps mc),
        mc_task_queues := dict_set tid q (mc_task_queues mc),
        mc_total_consumed := dict_incr q (mc_total_consumed mc)\<rparr>"

definition record_ack :: "time \<Rightarrow> string \<Rightarrow> string \<Rightarrow> metrics \<Rightarrow> metrics" where
  "record_ack now q tid mc =
     (let mc1 = mc\<lparr>mc_ack_times := dict_append q now (mc_ack_times mc),
                   mc_total_acked := dict_incr q (mc_total_acked mc),
                   mc_dequeue_timestamps := dict_del tid (mc_dequeue_timestamps mc),
                   mc_task_queues := dict_del tid (mc_task_queues mc)\<rparr>
      in case dict_get (mc_dequeue_timestamps mc) tid of
           None \<Rightarrow> mc1
         | Some dequeue_time \<Rightarrow>
             mc1\<lparr>mc_latency_samples :=
                   dict_set q
                     (push_max MAX_LATENCY_SAMPLES ((now - dequeue_time) * 1000)
                        (dict_get_or (mc_latency_samples mc) q []))
                     (mc_latency_samples mc)\<rparr>)"

definition record_nack :: "string \<Rightarrow> string \<Rightarrow> bool \<Rightarrow> metrics \<Rightarrow> metrics" where
  "record_nack q tid dead_lettered mc =
     mc\<lparr>mc_total_nacked := dict_incr q (mc_total_nacked mc),
        mc_total_dlq := (if dead_lettered then dict_incr q (mc_total_dlq mc) else mc_total_dlq mc),
        mc_dequeue_timestamps := dict_del tid (mc_dequeue_timestamps mc),
        mc_task_queues := dict_del tid (mc_task_queues mc)\<rparr>"

section \<open>Queries\<close>

text \<open>The rate of one window: prune it in place (a missing window is a fresh empty deque and is
  not stored), then count.\<close>

definition window_rate :: "time \<Rightarrow> string \<Rightarrow> (string, time list) dict \<Rightarrow> rat \<times> (string, time list) dict" where
  "window_rate now q d =
     (case dict_get d q of
        None \<Rightarrow> (0, d)
      | Some ts \<Rightarrow>
          (let ts' = prune_window ts now
           in (if length ts' = 0 then 0 else of_nat (length ts') / THROUGHPUT_WINDOW_SECONDS,
               dict_set q ts' d)))"

definition throughput :: "time \<Rightarrow> string \<Rightarrow> metrics \<Rightarrow> rat \<times> metrics" where
  "throughput now q mc =
     (case window_rate now q (mc_ack_times mc) of (r, d) \<Rightarrow> (r, mc\<lparr>mc_ack_times := d\<rparr>))"

definition produce_rate :: "time \<Rightarrow> string \<Rightarrow> metrics \<Rightarrow> rat \<times> metrics" where
  "produce_rate now q mc =
     (case window_rate now q (mc_produce_times mc) of (r, d) \<Rightarrow> (r, mc\<lparr>mc_produce_times := d\<rparr>))"

definition percentile_latency :: "metrics \<Rightarrow> string \<Rightarrow> rat \<Rightarrow> exn + rat" where
  "percentile_latency mc q p =
     (let samples = dict_get_or (mc_latency_samples mc) q []
      in if samples = [] then Inr 0
         else
           (let sorted_samples = sort samples;
                idx = py_int (of_nat (length samples) * p / 100);
                idx' = min idx (int (length samples) - 1)
            in py_index sorted_samples idx'))"

definition p50_latency :: "metrics \<Rightarrow> string \<Rightarrow> exn + rat" where
  "p50_latency mc q = percentile_latency mc q 50"

definition p95_latency :: "metrics \<Rightarrow> string \<Rightarrow> exn + rat" where
  "p95_latency mc q = percentile_latency mc q 95"

definition p99_latency :: "metrics \<Rightarrow> string \<Rightarrow> exn + rat" where
  "p99_latency mc q = percentile_latency mc q 99"

definition uptime_seconds :: "time \<Rightarrow> metrics \<Rightarrow> time" where
  "uptime_seconds now mc = now - mc_start_time mc"

definition counts_json :: "(string, nat) dict \<Rightarrow> json" where
  "counts_json d = JDict (map (\<lambda>(q, n). (q, JInt (int n))) d)"

definition mc_get_stats :: "time \<Rightarrow> metrics \<Rightarrow> (string \<times> json) list" where
  "mc_get_stats now mc =
     [(''total_produced'', counts_json (mc_total_produced mc)),
      (''total_consumed'', counts_json (mc_total_consumed mc)),
      (''total_acked'', counts_json (mc_total_acked mc)),
      (''total_nacked'', counts_json (mc_total_nacked mc)),
      (''total_dlq'', counts_json (mc_total_dlq mc)),
      (''uptime_seconds'', JFloat (py_round 1 (uptime_seconds now mc))),
      (''tracked_in_flight'', JInt (int (length (mc_dequeue_timestamps mc))))]"

definition rounded :: "exn + rat \<Rightarrow> json" where
  "rounded r = (case r of Inr x \<Rightarrow> JFloat (py_round 1 x) | Inl _ \<Rightarrow> JNull)"

text \<open>The entry of one queue in \<open>snapshot\<close>. The three percentiles cannot raise for the ranks
  50, 95 and 99 (\<open>percentile_in_range\<close>), so \<open>rounded\<close> never meets an exception.\<close>

definition snapshot_queue :: "time \<Rightarrow> string \<Rightarrow> metrics \<Rightarrow> json \<times> metrics" where
  "snapshot_queue now name mc =
     (case produce_rate now name mc of (pr, mc1) \<Rightarrow>
      case throughput now name mc1 of (tp, mc2) \<Rightarrow>
        (JDict
          [(''depth'', JInt 0),
           (''produce_rate'', JFloat (py_round 1 pr)),
           (''throughput_per_second'', JFloat (py_round 1 tp)),
           (''p50_latency_ms'', rounded (p50_latency mc2 name)),
           (''p95_latency_ms'', rounded (p95_latency mc2 name)),
           (''p99_latency_ms'', rounded (p99_latency mc2 name)),
           (''total_produced'', JInt (int (dict_get_or (mc_total_produced mc2) name 0))),
           (''total_acked'', JInt (int (dict_get_or (mc_total_acked mc2) name 0))),
           (''total_nacked'', JInt (int (dict_get_or (mc_total_nacked mc2) name 0)))],
         mc2))"

fun snapshot_queues :: "time \<Rightarrow> string list \<Rightarrow> (string \<times> json) list \<Rightarrow> metrics \<Rightarrow> (string \<times> json) list \<times> metrics" where
  "snapshot_queues now [] out mc = (out, mc)"
| "snapshot_queues now (name # names) out mc =
     (case snapshot_queue now name mc of (j, mc') \<Rightarrow> snapshot_queues now names (dict_set name j out) mc')"

text \<open>With no list of names the snapshot covers every queue with a produced or consumed task,
  in the iteration order \<open>ord\<close> of a Python set.\<close>

definition snapshot ::
  "(string list \<Rightarrow> string list) \<Rightarrow> time \<Rightarrow> string list option \<Rightarrow> metrics \<Rightarrow> (string \<times> json) list \<times> metrics" where
  "snapshot ord now names mc =
     (let qs = (case names of
                  Some ns \<Rightarrow> ns
                | None \<Rightarrow> ord (remdups (dict_keys (mc_total_produced mc) @ dict_keys (mc_total_consumed mc))))
      in case snapshot_queues now qs [] mc of (out, mc') \<Rightarrow>
           ([(''queues'', JDict out),
             (''broker'', JDict [(''uptime_seconds'', JFloat (py_round 1 (uptime_seconds now mc'))),
                                 (''tracked_in_flight'', JInt (int (length (mc_dequeue_timestamps mc'))))])],
            mc'))"

section \<open>Windows\<close>

lemma prune_window_filter:
  "sorted ts \<Longrightarrow> prune_window ts now = filter (\<lambda>t. now - 10 \<le> t) ts"
proof (induction ts)
  case Nil
  then show ?case by simp
next
  case (Cons t ts)
  show ?case
  proof (cases "t < now - 10")
    case True
    then show ?thesis using Cons by (simp add: THROUGHPUT_WINDOW_SECONDS_def)
  next
    case False
    then have "filter (\<lambda>t. now - 10 \<le> t) ts = ts"
      using Cons.prems by (intro filter_True) force
    then show ?thesis using False by (simp add: THROUGHPUT_WINDOW_SECONDS_def)
  qed
qed

text \<open>
  The window of a queue against the full history of its events: the window has lost only
  events older than the window length, so the rate it yields is the rate of the history.
\<close>

definition window_of :: "time list \<Rightarrow> time \<Rightarrow> time list \<Rightarrow> bool" where
  "window_of history now ts \<longleftrightarrow>
     sorted history \<and> (\<forall>t \<in> set history. t \<le> now) \<and>
     (\<exists>c \<le> now - 10. ts = filter (\<lambda>t. c \<le> t) history)"

lemma window_of_Nil: "window_of [] now []"
  unfolding window_of_def by (auto intro: exI [of _ "now - 10"])

lemma window_of_later:
  assumes "window_of h now ts" and "now \<le> now'"
  shows "window_of h now' ts"
proof -
  obtain c where "c \<le> now - 10" and "ts = filter (\<lambda>t. c \<le> t) h" and "sorted h" and "\<forall>t \<in> set h. t \<le> now"
    using assms(1) by (auto simp: window_of_def)
  moreover from this(1) assms(2) have "c \<le> now' - 10" by linarith
  moreover have "\<forall>t \<in> set h. t \<le> now'" using calculation(4) assms(2) order_trans by blast
  ultimately show ?thesis unfolding window_of_def by (intro conjI exI [of _ c])
qed

lemma window_of_append:
  assumes "window_of h now ts"
  shows "window_of (h @ [now]) now (ts @ [now])"
proof -
  obtain c where "c \<le> now - 10" and "ts = filter (\<lambda>t. c \<le> t) h"
    using assms by (auto simp: window_of_def)
  then have "ts @ [now] = filter (\<lambda>t. c \<le> t) (h @ [now])" by simp
  with assms \<open>c \<le> now - 10\<close> show ?thesis
    unfolding window_of_def by (auto simp: sorted_append)
qed

lemma window_of_prune:
  assumes "window_of h now ts"
  shows "window_of h now (prune_window ts now)"
    and "prune_window ts now = filter (\<lambda>t. now - 10 \<le> t) h"
proof -
  obtain c where c: "c \<le> now - 10" and ts: "ts = filter (\<lambda>t. c \<le> t) h" and "sorted h"
    using assms by (auto simp: window_of_def)
  then have "sorted ts" using sorted_filter [of "\<lambda>t. t" h] by simp
  then show eq: "prune_window ts now = filter (\<lambda>t. now - 10 \<le> t) h"
    using c prune_window_filter [of ts now] by (simp add: ts) (rule filter_cong, auto)
  show "window_of h now (prune_window ts now)"
    using assms unfolding eq window_of_def by auto
qed

definition windows_ok :: "(string \<Rightarrow> time list) \<Rightarrow> time \<Rightarrow> (string, time list) dict \<Rightarrow> bool" where
  "windows_ok hist now d \<longleftrightarrow> (\<forall>q. window_of (hist q) now (dict_get_or d q []))"

lemma windows_ok_later: "windows_ok hist now d \<Longrightarrow> now \<le> now' \<Longrightarrow> windows_ok hist now' d"
  by (auto simp: windows_ok_def intro: window_of_later)

lemma dict_get_or_set [simp, dict_simps]:
  "dict_get_or (dict_set k v d) k' w = (if k' = k then v else dict_get_or d k' w)"
  by (simp add: dict_get_or_def)

lemma windows_ok_append:
  "windows_ok hist now d \<Longrightarrow> windows_ok (hist(q := hist q @ [now])) now (dict_append q now d)"
  by (auto simp: windows_ok_def dict_append_def window_of_append)

lemma windows_ok_rate:
  assumes "windows_ok hist now d"
  shows "fst (window_rate now q d) = of_nat (length (filter (\<lambda>t. now - 10 \<le> t) (hist q))) / 10"
    and "windows_ok hist now (snd (window_rate now q d))"
proof -
  have w: "window_of (hist q) now (dict_get_or d q [])" using assms by (simp add: windows_ok_def)
  have "prune_window (dict_get_or d q []) now = filter (\<lambda>t. now - 10 \<le> t) (hist q)"
    by (rule window_of_prune [OF w])
  then show "fst (window_rate now q d) = of_nat (length (filter (\<lambda>t. now - 10 \<le> t) (hist q))) / 10"
    by (auto simp: window_rate_def Let_def dict_get_or_def THROUGHPUT_WINDOW_SECONDS_def split: option.splits)
  show "windows_ok hist now (snd (window_rate now q d))"
    using assms window_of_prune(1) [OF w]
    by (auto simp: window_rate_def windows_ok_def Let_def dict_get_or_def split: option.splits)
qed

section \<open>Histories of calls\<close>

datatype metric_call =
    Record_produce string
  | Record_consume string string
  | Record_ack string string
  | Record_nack string string bool
  | Read_throughput string
  | Read_produce_rate string
  | Take_snapshot "string list"

fun mc_step :: "time \<Rightarrow> metric_call \<Rightarrow> metrics \<Rightarrow> metrics" where
  "mc_step now (Record_produce q) mc = record_produce now q mc"
| "mc_step now (Record_consume q tid) mc = record_consume now q tid mc"
| "mc_step now (Record_ack q tid) mc = record_ack now q tid mc"
| "mc_step now (Record_nack q tid dead) mc = record_nack q tid dead mc"
| "mc_step now (Read_throughput q) mc = snd (throughput now q mc)"
| "mc_step now (Read_produce_rate q) mc = snd (produce_rate now q mc)"
| "mc_step now (Take_snapshot names) mc = snd (snapshot id now (Some names) mc)"

fun mc_run :: "(time \<times> metric_call) list \<Rightarrow> metrics \<Rightarrow> metrics" where
  "mc_run [] mc = mc"
| "mc_run ((now, c) # cs) mc = mc_run cs (mc_step now c mc)"

text \<open>The times of all acknowledgements, and of all produced tasks, of a queue.\<close>

fun ack_history :: "string \<Rightarrow> (time \<times> metric_call) list \<Rightarrow> time list" where
  "ack_history q [] = []"
| "ack_history q ((now, Record_ack q' _) # cs) = (if q' = q then now # ack_history q cs else ack_history q cs)"
| "ack_history q (_ # cs) = ack_history q cs"

fun produce_history :: "string \<Rightarrow> (time \<times> metric_call) list \<Rightarrow> time list" where
  "produce_history q [] = []"
| "produce_history q ((now, Record_produce q') # cs) =
     (if q' = q then now # produce_history q cs else produce_history q cs)"
| "produce_history q (_ # cs) = produce_history q cs"

definition history_ok :: "(string \<Rightarrow> time list) \<Rightarrow> (string \<Rightarrow> time list) \<Rightarrow> time \<Rightarrow> metrics \<Rightarrow> bool" where
  "history_ok acks prods now mc \<longleftrightarrow>
     windows_ok acks now (mc_ack_times mc) \<and> windows_ok prods now (mc_produce_times mc)"

lemma history_ok_throughput: "history_ok a p now mc \<Longrightarrow> history_ok a p now (snd (throughput now q mc))"
  using windows_ok_rate(2) [of a now "mc_ack_times mc" q]
  by (auto simp: history_ok_def throughput_def split: prod.split)

lemma history_ok_produce_rate: "history_ok a p now mc \<Longrightarrow> history_ok a p now (snd (produce_rate now q mc))"
  using windows_ok_rate(2) [of p now "mc_produce_times mc" q]
  by (auto simp: history_ok_def produce_rate_def split: prod.split)

lemma history_ok_snapshot_queue:
  "history_ok a p now mc \<Longrightarrow> history_ok a p now (snd (snapshot_queue now q mc))"
  using history_ok_produce_rate [of a p now mc q]
    history_ok_throughput [of a p now "snd (produce_rate now q mc)" q]
  by (simp add: snapshot_queue_def case_prod_unfold)

lemma history_ok_snapshot_queues:
  "history_ok a p now mc \<Longrightarrow> history_ok a p now (snd (snapshot_queues now qs out mc))"
proof (induction qs arbitrary: out mc)
  case (Cons q qs)
  from history_ok_snapshot_queue [OF Cons.prems, of q] Cons.IH show ?case
    by (simp add: case_prod_unfold)
qed simp

lemma history_ok_step:
  assumes "history_ok a p now mc"
  shows "history_ok (\<lambda>q. a q @ ack_history q [(now, c)]) (\<lambda>q. p q @ produce_history q [(now, c)]) now
           (mc_step now c mc)"
proof (cases c)
  case (Record_produce q)
  have "(\<lambda>r. p r @ produce_history r [(now, c)]) = p(q := p q @ [now])"
    by (auto simp: fun_eq_iff Record_produce)
  then show ?thesis
    using assms by (simp add: history_ok_def Record_produce record_produce_def windows_ok_append)
next
  case (Record_ack q tid)
  have "(\<lambda>r. a r @ ack_history r [(now, c)]) = a(q := a q @ [now])"
    by (auto simp: fun_eq_iff Record_ack)
  then show ?thesis
    using assms by (simp add: history_ok_def Record_ack record_ack_def Let_def windows_ok_append split: option.split)
qed (use assms history_ok_throughput [of a p now mc] history_ok_produce_rate [of a p now mc]
      history_ok_snapshot_queues [of a p now mc] in
    \<open>simp_all add: history_ok_def record_consume_def record_nack_def snapshot_def Let_def case_prod_unfold\<close>)

lemma history_Cons:
  "ack_history q (c # cs) = ack_history q [c] @ ack_history q cs"
  "produce_history q (c # cs) = produce_history q [c] @ produce_history q cs"
  by (cases "(q, c # cs)" rule: ack_history.cases; simp)+

lemma history_ok_run:
  assumes "history_ok a p t0 mc" and "sorted (map fst cs)" and "\<forall>c \<in> set cs. t0 \<le> fst c \<and> fst c \<le> t1" and "t0 \<le> t1"
  shows "history_ok (\<lambda>q. a q @ ack_history q cs) (\<lambda>q. p q @ produce_history q cs) t1 (mc_run cs mc)"
  using assms
proof (induction cs arbitrary: a p t0 mc)
  case Nil
  then show ?case by (auto simp: history_ok_def intro: windows_ok_later)
next
  case (Cons c cs)
  obtain now op where c: "c = (now, op)" by fastforce
  have "history_ok a p now mc"
    using Cons.prems(1,3) c by (auto simp: history_ok_def intro: windows_ok_later)
  from Cons.IH [OF history_ok_step [OF this, of op]] Cons.prems c
  show ?case by (subst history_Cons(1), subst history_Cons(2)) simp
qed

section \<open>Percentiles\<close>

lemma percentile_index:
  assumes "0 \<le> p" and "0 < n"
  shows "0 \<le> min (py_int (of_nat n * p / 100)) (int n - 1)"
    and "min (py_int (of_nat n * p / 100)) (int n - 1) < int n"
proof -
  have "0 \<le> \<lfloor>of_nat n * p / 100\<rfloor>" and "\<not> of_nat n * p / 100 < 0"
    using assms(1) by (simp_all add: not_less)
  then show "0 \<le> min (py_int (of_nat n * p / 100)) (int n - 1)"
    and "min (py_int (of_nat n * p / 100)) (int n - 1) < int n"
    using assms(2) unfolding py_int_def by simp_all
qed

lemma percentile_nth:
  assumes "0 \<le> p" and "dict_get_or (mc_latency_samples mc) q [] = xs" and "xs \<noteq> []"
  shows "percentile_latency mc q p =
         Inr (sort xs ! nat (min (py_int (of_nat (length xs) * p / 100)) (int (length xs) - 1)))"
  using assms percentile_index [OF assms(1), of "length xs"]
  by (simp add: percentile_latency_def py_index_def Let_def not_less del: min_less_iff_conj)

lemma py_int_mono: "0 \<le> x \<Longrightarrow> x \<le> y \<Longrightarrow> py_int x \<le> py_int y"
  by (auto simp: py_int_def floor_mono)

section \<open>Properties\<close>

text \<open>
  C24. The windowed rates are exact. After any sequence of recorded events, rate queries and
  snapshots at non-decreasing times, the throughput reported for a queue at a later time
  \<open>now\<close> is the number of acknowledgements of that queue in the last ten seconds divided by
  ten, computed over the complete history; likewise the produce rate. Earlier pruning never
  drops an event that still counts.
\<close>

theorem windowed_rates_exact:
  assumes "sorted (map fst cs)" and "\<forall>c \<in> set cs. t0 \<le> fst c \<and> fst c \<le> now" and "t0 \<le> now"
  shows "fst (throughput now q (mc_run cs (mc_init t0))) =
           of_nat (length (filter (\<lambda>t. now - 10 \<le> t) (ack_history q cs))) / 10 \<and>
         fst (produce_rate now q (mc_run cs (mc_init t0))) =
           of_nat (length (filter (\<lambda>t. now - 10 \<le> t) (produce_history q cs))) / 10"
proof -
  have "history_ok (\<lambda>_. []) (\<lambda>_. []) t0 (mc_init t0)"
    by (simp add: history_ok_def windows_ok_def mc_init_def dict_get_or_def window_of_Nil)
  from history_ok_run [OF this assms] show ?thesis
    using windows_ok_rate(1) [of "\<lambda>q. ack_history q cs" now "mc_ack_times (mc_run cs (mc_init t0))" q]
      windows_ok_rate(1) [of "\<lambda>q. produce_history q cs" now "mc_produce_times (mc_run cs (mc_init t0))" q]
    by (simp add: history_ok_def throughput_def produce_rate_def case_prod_unfold)
qed

theorem windowed_rates_exact_witness:
  "fst (throughput 15 ''q'' (mc_run
     [(1, Record_ack ''q'' ''a''), (9, Record_ack ''q'' ''b''), (12, Read_throughput ''q''),
      (14, Record_ack ''q'' ''c'')] (mc_init 0))) = 1 / 5"
  using windowed_rates_exact [of "[(1, Record_ack ''q'' ''a''), (9, Record_ack ''q'' ''b''),
      (12, Read_throughput ''q''), (14, Record_ack ''q'' ''c'')]" 0 15 "''q''"]
  by simp

text \<open>
  C31. Percentiles. For ranks \<open>0 \<le> p \<le> p'\<close> a queue with samples yields two of its own samples,
  the lower rank the smaller one; in particular p50, p95 and p99 never raise and are ordered.
\<close>

theorem percentile_in_range:
  assumes "0 \<le> p" and "p \<le> p'" and "dict_get_or (mc_latency_samples mc) q [] = xs" and "xs \<noteq> []"
  shows "\<exists>x y. percentile_latency mc q p = Inr x \<and> percentile_latency mc q p' = Inr y \<and>
           x \<in> set xs \<and> y \<in> set xs \<and> x \<le> y"
proof -
  let ?n = "length xs"
  let ?i = "\<lambda>p. nat (min (py_int (of_nat ?n * p / 100)) (int ?n - 1))"
  have n: "0 < ?n" using assms(4) by simp
  have in_range: "?i r < ?n" if "0 \<le> r" for r :: rat
    using percentile_index [OF that n] by linarith
  have "of_nat ?n * p / 100 \<le> of_nat ?n * p' / 100" and "0 \<le> of_nat ?n * p / 100"
    using assms(1,2) by (simp_all add: divide_right_mono mult_left_mono)
  then have "?i p \<le> ?i p'" using py_int_mono by (intro nat_mono min.mono) auto
  then have "sort xs ! ?i p \<le> sort xs ! ?i p'"
    using in_range [of p'] assms(1,2) by (intro sorted_nth_mono) auto
  moreover have "sort xs ! ?i p \<in> set xs" and "sort xs ! ?i p' \<in> set xs"
    using nth_mem [of "?i p" "sort xs"] nth_mem [of "?i p'" "sort xs"] in_range [of p] in_range [of p'] assms(1,2)
    by simp_all
  ultimately show ?thesis
    using percentile_nth [OF assms(1,3,4)] percentile_nth [OF _ assms(3,4), of p'] assms(1,2) by simp
qed

theorem percentile_in_range_witness:
  "\<exists>x y. p50_latency ((mc_init 0)\<lparr>mc_latency_samples := [(''q'', [30, 10, 20])]\<rparr>) ''q'' = Inr x \<and>
     p99_latency ((mc_init 0)\<lparr>mc_latency_samples := [(''q'', [30, 10, 20])]\<rparr>) ''q'' = Inr y \<and>
     x \<in> {10, 20, 30} \<and> y \<in> {10, 20, 30} \<and> x \<le> y"
  using percentile_in_range [of 50 99 "(mc_init 0)\<lparr>mc_latency_samples := [(''q'', [30, 10, 20])]\<rparr>" "''q''" "[30, 10, 20]"]
  by (auto simp: p50_latency_def p99_latency_def dict_get_or_def)

end
