(* ===== verification/Wal_Store.thy ===== *)
theory Wal_Store
  imports Dead_Letter
begin

text \<open>
  \<open>WALStore\<close> of \<open>persistence/wal_store.py\<close>: the three SQLite tables and one definition per
  method. A table is the list of its rows in rowid order, keyed by the primary key:
  \<open>INSERT OR REPLACE\<close> removes the old row and appends the new one, \<open>UPDATE\<close> changes a row in
  place, \<open>DELETE\<close> removes rows. Every method commits before it returns, so each one is an
  atomic durable step; a crash keeps the tables as they are between two methods. Rows that tie
  in an \<open>ORDER BY\<close> come in rowid order (SQLite leaves this open and no property depends on it).

  The payload column holds text. \<open>Dumped j\<close> is the text \<open>json.dumps\<close> produces for \<open>j\<close>;
  \<open>Raw s\<close> is any text that is not JSON.
\<close>

section \<open>State\<close>

datatype json_text = Dumped json | Raw string

definition json_dumps :: "json \<Rightarrow> json_text" where
  "json_dumps j = Dumped j"

fun json_loads :: "json_text \<Rightarrow> exn + json" where
  "json_loads (Dumped j) = Inr j"
| "json_loads (Raw _) = Inl JSONDecodeError"

record task_row =
  tr_queue_name :: string
  tr_payload :: json_text
  tr_status :: string
  tr_attempts :: int
  tr_assigned_worker :: "string option"
  tr_created_at :: time
  tr_updated_at :: time

record dlq_row =
  dr_queue_name :: string
  dr_payload :: json_text
  dr_final_error :: string
  dr_attempts :: int
  dr_dead_lettered_at :: time

record wal_store =
  ws_db_path :: string
  ws_tasks :: "(string, task_row) dict"
  ws_dlq :: "(string, dlq_row) dict"
  ws_metadata :: "(string, string) dict"
  ws_open :: bool

text \<open>Opening a database file: the schema is created where it is missing and existing rows stay.\<close>

definition init_db :: "string \<Rightarrow> wal_store option \<Rightarrow> wal_store" where
  "init_db path existing =
     (case existing of
        None \<Rightarrow> \<lparr>ws_db_path = path, ws_tasks = [], ws_dlq = [], ws_metadata = [], ws_open = True\<rparr>
      | Some ws \<Rightarrow> ws\<lparr>ws_db_path := path, ws_open := True\<rparr>)"

definition insert_or_replace :: "'k \<Rightarrow> 'r \<Rightarrow> ('k, 'r) dict \<Rightarrow> ('k, 'r) dict" where
  "insert_or_replace k r tab = dict_del k tab @ [(k, r)]"

section \<open>Task operations\<close>

text \<open>The text bound to the \<open>assigned_worker\<close> column. A task is saved only when it has just been
  enqueued, so the column is \<open>NULL\<close> there.\<close>

definition worker_column :: "json option \<Rightarrow> string option" where
  "worker_column w = (case w of Some (JStr s) \<Rightarrow> Some s | _ \<Rightarrow> None)"

definition save_task :: "time \<Rightarrow> task \<Rightarrow> wal_store \<Rightarrow> wal_store" where
  "save_task now t ws =
     ws\<lparr>ws_tasks := insert_or_replace (task_id t)
          \<lparr>tr_queue_name = queue_name t, tr_payload = json_dumps (payload t),
           tr_status = status_str (status t), tr_attempts = attempts t,
           tr_assigned_worker = worker_column (assigned_worker t), tr_created_at = created_at t,
           tr_updated_at = now\<rparr> (ws_tasks ws)\<rparr>"

definition update_task_status ::
  "time \<Rightarrow> string \<Rightarrow> string \<Rightarrow> int option \<Rightarrow> string option \<Rightarrow> wal_store \<Rightarrow> bool \<times> wal_store" where
  "update_task_status now tid st att wid ws =
     (case dict_get (ws_tasks ws) tid of
        None \<Rightarrow> (False, ws)
      | Some r \<Rightarrow>
          (let r1 = r\<lparr>tr_status := st, tr_updated_at := now\<rparr>;
               r2 = (case att of None \<Rightarrow> r1 | Some n \<Rightarrow> r1\<lparr>tr_attempts := n\<rparr>);
               r3 = (case wid of None \<Rightarrow> r2 | Some w \<Rightarrow> r2\<lparr>tr_assigned_worker := Some w\<rparr>)
           in (True, ws\<lparr>ws_tasks := dict_set tid r3 (ws_tasks ws)\<rparr>)))"

definition delete_task :: "string \<Rightarrow> wal_store \<Rightarrow> bool \<times> wal_store" where
  "delete_task tid ws =
     (dict_get (ws_tasks ws) tid \<noteq> None, ws\<lparr>ws_tasks := dict_del tid (ws_tasks ws)\<rparr>)"

definition recoverable :: "task_row \<Rightarrow> bool" where
  "recoverable r \<longleftrightarrow> tr_status r = ''pending'' \<or> tr_status r = ''in_flight''"

definition load_pending_tasks :: "wal_store \<Rightarrow> (string \<times> task_row) list" where
  "load_pending_tasks ws =
     sort_key (\<lambda>(_, r). tr_created_at r) (filter (\<lambda>(_, r). recoverable r) (ws_tasks ws))"

definition load_all_tasks :: "wal_store \<Rightarrow> (string \<times> task_row) list" where
  "load_all_tasks ws = sort_key (\<lambda>(_, r). tr_created_at r) (ws_tasks ws)"

section \<open>Dead letter operations\<close>

text \<open>One transaction: insert into the dead letter table and delete from the task table.\<close>

definition add_to_dlq :: "time \<Rightarrow> task \<Rightarrow> string \<Rightarrow> wal_store \<Rightarrow> wal_store" where
  "add_to_dlq now t err ws =
     ws\<lparr>ws_dlq := insert_or_replace (task_id t)
          \<lparr>dr_queue_name = queue_name t, dr_payload = json_dumps (payload t), dr_final_error = err,
           dr_attempts = attempts t, dr_dead_lettered_at = now\<rparr> (ws_dlq ws),
        ws_tasks := dict_del (task_id t) (ws_tasks ws)\<rparr>"

text \<open>A filter is used when it is neither \<open>None\<close> nor the empty string. \<open>LIMIT\<close> with a negative
  bound returns every row.\<close>

definition in_queue_filter :: "string option \<Rightarrow> string \<Rightarrow> bool" where
  "in_queue_filter f q \<longleftrightarrow> (case f of None \<Rightarrow> True | Some n \<Rightarrow> n = [] \<or> q = n)"

definition sql_limit :: "int \<Rightarrow> 'a list \<Rightarrow> 'a list" where
  "sql_limit n xs = (if n < 0 then xs else take (nat n) xs)"

definition get_dlq_tasks :: "string option \<Rightarrow> int \<Rightarrow> wal_store \<Rightarrow> (string \<times> dlq_row) list" where
  "get_dlq_tasks f limit ws =
     sql_limit limit
       (sort_key (\<lambda>(_, r). - dr_dead_lettered_at r)
         (filter (\<lambda>(_, r). in_queue_filter f (dr_queue_name r)) (ws_dlq ws)))"

definition get_dlq_count :: "string option \<Rightarrow> wal_store \<Rightarrow> nat" where
  "get_dlq_count f ws = length (filter (\<lambda>(_, r). in_queue_filter f (dr_queue_name r)) (ws_dlq ws))"

definition replay_dlq_task :: "string \<Rightarrow> wal_store \<Rightarrow> dlq_row option \<times> wal_store" where
  "replay_dlq_task tid ws =
     (case dict_get (ws_dlq ws) tid of
        None \<Rightarrow> (None, ws)
      | Some r \<Rightarrow> (Some r, ws\<lparr>ws_dlq := dict_del tid (ws_dlq ws)\<rparr>))"

definition purge_dlq :: "string option \<Rightarrow> wal_store \<Rightarrow> nat \<times> wal_store" where
  "purge_dlq f ws =
     (get_dlq_count f ws,
      ws\<lparr>ws_dlq := filter (\<lambda>(_, r). \<not> in_queue_filter f (dr_queue_name r)) (ws_dlq ws)\<rparr>)"

section \<open>Metadata and utilities\<close>

definition set_metadata :: "string \<Rightarrow> string \<Rightarrow> wal_store \<Rightarrow> wal_store" where
  "set_metadata k v ws = ws\<lparr>ws_metadata := insert_or_replace k v (ws_metadata ws)\<rparr>"

definition get_metadata :: "string \<Rightarrow> wal_store \<Rightarrow> string option" where
  "get_metadata k ws = dict_get (ws_metadata ws) k"

definition clear_all_data :: "wal_store \<Rightarrow> wal_store" where
  "clear_all_data ws = ws\<lparr>ws_tasks := [], ws_dlq := [], ws_metadata := []\<rparr>"

text \<open>\<open>GROUP BY status\<close>: one entry per status that occurs.\<close>

definition ws_get_stats :: "wal_store \<Rightarrow> (string \<times> json) list" where
  "ws_get_stats ws =
     [(''tasks_by_status'',
         JDict (map (\<lambda>st. (st, JInt (int (count_list (map tr_status (dict_values (ws_tasks ws))) st))))
                 (remdups (map tr_status (dict_values (ws_tasks ws)))))),
      (''dlq_count'', JInt (int (length (ws_dlq ws)))),
      (''db_path'', JStr (ws_db_path ws))]"

definition ws_close :: "wal_store \<Rightarrow> wal_store" where
  "ws_close ws = ws\<lparr>ws_open := False\<rparr>"

section \<open>Invariant\<close>

definition ws_ok :: "wal_store \<Rightarrow> bool" where
  "ws_ok ws \<longleftrightarrow>
     dict_ok (ws_tasks ws) \<and> dict_ok (ws_dlq ws) \<and> dict_ok (ws_metadata ws) \<and>
     set (dict_keys (ws_tasks ws)) \<inter> set (dict_keys (ws_dlq ws)) = {}"

lemma dict_get_replace [simp, dict_simps]:
  "dict_get (insert_or_replace k r d) k' = (if k' = k then Some r else dict_get d k')"
  by (simp add: insert_or_replace_def map_add_def split: option.split)

lemma dict_ok_replace [simp, intro]: "dict_ok d \<Longrightarrow> dict_ok (insert_or_replace k r d)"
  using dict_ok_del [of d k]
  by (auto simp: insert_or_replace_def dict_ok_def dict_del_content)

lemma dict_keys_replace [dict_simps]:
  "set (dict_keys (insert_or_replace k r d)) = insert k (set (dict_keys d))"
  by (auto simp: insert_or_replace_def dict_del_content image_iff)

lemma dict_keys_iff: "k \<in> set (dict_keys d) \<longleftrightarrow> dict_get d k \<noteq> None"
  by (simp add: dict_get_None)

lemma ws_ok_iff:
  "ws_ok ws \<longleftrightarrow> dict_ok (ws_tasks ws) \<and> dict_ok (ws_dlq ws) \<and> dict_ok (ws_metadata ws) \<and>
     (\<forall>k. dict_get (ws_tasks ws) k = None \<or> dict_get (ws_dlq ws) k = None)"
  unfolding ws_ok_def disjoint_iff dict_keys_iff by (auto, metis option.distinct(1))

lemma ws_ok_save_task [inv_intros]:
  "ws_ok ws \<Longrightarrow> dict_get (ws_dlq ws) (task_id t) = None \<Longrightarrow> ws_ok (save_task now t ws)"
  by (auto simp: ws_ok_iff save_task_def)

lemma ws_ok_update [inv_intros]: "ws_ok ws \<Longrightarrow> ws_ok (snd (update_task_status now tid st att wid ws))"
  by (auto simp: ws_ok_iff update_task_status_def Let_def split: option.split) (metis option.distinct(1))

lemma ws_ok_delete_task [inv_intros]: "ws_ok ws \<Longrightarrow> ws_ok (snd (delete_task tid ws))"
  by (auto simp: ws_ok_iff delete_task_def)

lemma ws_ok_add_to_dlq [inv_intros]: "ws_ok ws \<Longrightarrow> ws_ok (add_to_dlq now t err ws)"
  by (auto simp: ws_ok_iff add_to_dlq_def)

lemma ws_ok_replay [inv_intros]: "ws_ok ws \<Longrightarrow> ws_ok (snd (replay_dlq_task tid ws))"
  by (auto simp: ws_ok_iff replay_dlq_task_def split: option.split)

lemma dict_ok_filter [simp, intro]: "dict_ok d \<Longrightarrow> dict_ok (filter P d)"
  by (simp add: dict_ok_def distinct_map_filter)

lemma ws_ok_purge [inv_intros]: "ws_ok ws \<Longrightarrow> ws_ok (snd (purge_dlq f ws))"
  by (auto simp: ws_ok_def purge_dlq_def)

lemma ws_ok_metadata [inv_intros]: "ws_ok ws \<Longrightarrow> ws_ok (set_metadata k v ws)"
  by (auto simp: ws_ok_iff set_metadata_def)

lemma ws_ok_clear [inv_intros]: "ws_ok (clear_all_data ws)"
  by (simp add: ws_ok_def clear_all_data_def)

lemma ws_ok_init_db [inv_intros]: "ws_ok (init_db path None)" "ws_ok ws \<Longrightarrow> ws_ok (init_db path (Some ws))"
  by (simp_all add: ws_ok_def init_db_def)

end
