(* ===== verification/Py_String.thy ===== *)
theory Py_String
  imports Prelude "HOL-Library.Sublist"
begin

text \<open>
  The string methods the dashboard server uses: \<open>str\<close> of a number, \<open>split\<close> at a separator,
  \<open>strip\<close>, \<open>lower\<close>, \<open>in\<close>, and the two path functions \<open>os.path.join\<close> and \<open>os.path.splitext\<close> for
  POSIX paths. Characters are 8-bit; \<open>lower\<close> and \<open>strip\<close> follow ASCII.
\<close>

section \<open>Numbers\<close>

function py_str :: "nat \<Rightarrow> string" where
  "py_str n = (if n < 10 then [char_of (48 + n)] else py_str (n div 10) @ [char_of (48 + n mod 10)])"
  by pat_completeness auto
termination by (relation "measure id") auto

declare py_str.simps [simp del]

section \<open>Splitting\<close>

text \<open>\<open>s.split(sep)\<close> for a non-empty separator; \<open>acc\<close> is the current piece, reversed.\<close>

function split_from :: "string \<Rightarrow> string \<Rightarrow> string \<Rightarrow> string list" where
  "split_from sep acc s =
     (if sep \<noteq> [] \<and> prefix sep s then rev acc # split_from sep [] (drop (length sep) s)
      else case s of [] \<Rightarrow> [rev acc] | c # cs \<Rightarrow> split_from sep (c # acc) cs)"
  by pat_completeness auto
termination
  by (relation "measure (\<lambda>(sep, acc, s). length s)") (auto simp: prefix_def)

declare split_from.simps [simp del]

definition py_split :: "string \<Rightarrow> string \<Rightarrow> string list" where
  "py_split sep s = split_from sep [] s"

lemma split_from_not_Nil: "split_from sep acc s \<noteq> []"
  by (induction sep acc s rule: split_from.induct) (subst split_from.simps, auto split: list.split)

lemma py_split_not_Nil [simp]: "py_split sep s \<noteq> []"
  by (simp add: py_split_def split_from_not_Nil)

text \<open>The pieces are substrings: what occurs in a piece occurs in the whole.\<close>

lemma split_from_sublist: "p \<in> set (split_from sep acc s) \<Longrightarrow> sublist p (rev acc @ s)"
proof (induction sep acc s rule: split_from.induct)
  case (1 sep acc s)
  show ?case
  proof (cases "sep \<noteq> [] \<and> prefix sep s")
    case True
    then obtain rest where s: "s = sep @ rest" by (auto simp: prefix_def)
    have "p = rev acc \<or> p \<in> set (split_from sep [] rest)"
      using 1(3) True s by (subst (asm) split_from.simps) simp
    moreover have "sublist p (rev acc @ sep @ rest)" if "sublist p rest"
      using that by (metis append_assoc sublist_appendI sublist_def)
    ultimately show ?thesis using 1(1) True s by auto
  next
    case False
    show ?thesis
    proof (cases s)
      case Nil
      then show ?thesis using 1(3) False by (subst (asm) split_from.simps) (auto split: if_splits)
    next
      case (Cons c cs)
      then have "p \<in> set (split_from sep (c # acc) cs)"
        using 1(3) False by (subst (asm) split_from.simps) (auto split: if_splits)
      then show ?thesis using 1(2) [OF False Cons] Cons by simp
    qed
  qed
qed

lemma py_split_sublist: "p \<in> set (py_split sep s) \<Longrightarrow> sublist p s"
  using split_from_sublist [of p sep "[]" s] by (simp add: py_split_def)

section \<open>Other methods\<close>

definition py_isspace :: "char \<Rightarrow> bool" where
  "py_isspace c \<longleftrightarrow> c \<in> {CHR 0x20, CHR 0x09, CHR 0x0A, CHR 0x0B, CHR 0x0C, CHR 0x0D, CHR 0x1C, CHR 0x1D, CHR 0x1E, CHR 0x1F}"

definition py_strip :: "string \<Rightarrow> string" where
  "py_strip s = rev (dropWhile py_isspace (rev (dropWhile py_isspace s)))"

definition py_lower :: "string \<Rightarrow> string" where
  "py_lower s = map (\<lambda>c. if 65 \<le> (of_char c :: nat) \<and> (of_char c :: nat) \<le> 90 then char_of ((of_char c :: nat) + 32) else c) s"

section \<open>Paths\<close>

definition path_join :: "string \<Rightarrow> string \<Rightarrow> string" where
  "path_join dir p =
     (if prefix ''/'' p then p
      else if dir = [] \<or> last dir = CHR ''/'' then dir @ p
      else dir @ ''/'' @ p)"

text \<open>The extension of \<open>os.path.splitext\<close>: from the last dot of the last component on, unless only
  dots come before it there.\<close>

definition path_ext :: "string \<Rightarrow> string" where
  "path_ext p =
     (let component = rev (last (py_split ''/'' p));
          tail = dropWhile (\<lambda>c. c \<noteq> CHR ''.'') component
      in if tail = [] \<or> (\<forall>c \<in> set (tl tail). c = CHR ''.'') then []
         else CHR ''.'' # rev (takeWhile (\<lambda>c. c \<noteq> CHR ''.'') component))"

end
