(* ===== verification/Broker_Server.thy ===== *)
theory Broker_Server
  imports Eviction Load_Shedder Metrics Wal_Store Py_String
begin

text \<open>
  \<open>BrokerServer\<close> of \<open>broker/server.py\<close>: the command handlers over the state of the queue
  manager, the worker registry, the load shedder, the metrics collector and the optional
  persistent store, the dispatcher, the dashboard handlers, and the recovery and shutdown
  phases. A handler takes the environment of the call, the JSON message and the broker, and
  returns the response or the exception it raises, with the state it leaves behind; a raise
  after a state change keeps the change.

  No section of the broker that holds an \<open>asyncio\<close> lock suspends, so a lock is never found
  taken and a handler runs from its first to its last statement without interleaving; each
  handler is one atomic step. (Theory \<open>Task_Lifecycle\<close> does not rely on this and interleaves at
  every lock boundary.)
\<close>

section \<open>State and environment\<close>

text \<open>\<open>bk_server\<close>: whether \<open>start\<close> has created the listening server (\<open>self._server\<close> is never set
  back to \<open>None\<close>).\<close>

record broker =
  bk_qm :: queue_manager
  bk_wr :: worker_registry
  bk_ls :: load_shedder
  bk_mc :: metrics
  bk_wal :: "wal_store option"
  bk_active_connections :: nat
  bk_server :: bool

text \<open>What a call observes of the world: \<open>time.time()\<close>, \<open>time.monotonic()\<close>, the identifier
  \<open>uuid.uuid4()\<close> draws, the peer address and the connection.\<close>

record call_env =
  env_time :: time
  env_monotonic :: time
  env_uuid :: string
  env_peer :: "string \<times> int"
  env_conn :: "nat option"

type_synonym message = "(string \<times> json) list"

definition bk_init :: "time \<Rightarrow> wal_store option \<Rightarrow> broker" where
  "bk_init mnow store =
     \<lparr>bk_qm = qm_init 3, bk_wr = wr_init, bk_ls = ls_init, bk_mc = mc_init mnow, bk_wal = store,
      bk_active_connections = 0, bk_server = False\<rparr>"

definition err :: "string \<Rightarrow> json" where
  "err reason = JDict [(''status'', JStr ''error''), (''reason'', JStr reason)]"

text \<open>The store is updated where there is one.\<close>

definition with_wal :: "(wal_store \<Rightarrow> wal_store) \<Rightarrow> broker \<Rightarrow> broker" where
  "with_wal f b = b\<lparr>bk_wal := map_option f (bk_wal b)\<rparr>"

text \<open>Two responses with data: the dequeued task and a dead letter entry.\<close>

definition task_view_json :: "task_view \<Rightarrow> json" where
  "task_view_json v =
     JDict [(''task_id'', JStr (tv_task_id v)), (''queue_name'', JStr (tv_queue_name v)),
            (''payload'', tv_payload v), (''attempts'', JInt (tv_attempts v))]"

definition dlq_entry_json :: "dlq_entry \<Rightarrow> json" where
  "dlq_entry_json e =
     JDict [(''task_id'', JStr (de_task_id e)), (''queue_name'', JStr (de_queue_name e)),
            (''payload'', de_payload e), (''attempts'', JInt (de_attempts e)),
            (''status'', JStr (status_str (de_status e))),
            (''dead_lettered_at'', case de_dead_lettered_at e of None \<Rightarrow> JNull | Some x \<Rightarrow> JFloat x)]"

section \<open>Task commands\<close>

text \<open>Persist the task just enqueued: the last one of the queue with that identifier.\<close>

definition persist_new :: "time \<Rightarrow> string \<Rightarrow> string \<Rightarrow> broker \<Rightarrow> broker" where
  "persist_new now q tid b =
     (case find (\<lambda>t. task_id t = tid) (rev (queue_of (bk_qm b) q)) of
        None \<Rightarrow> b
      | Some t \<Rightarrow> with_wal (save_task now t) b)"

definition handle_produce :: "call_env \<Rightarrow> message \<Rightarrow> broker \<Rightarrow> (exn + json) \<times> broker" where
  "handle_produce e m b =
     (if \<not> truthy (jget m ''queue'') then (Inr (err ''Missing 'queue' field''), b)
      else if jget m ''task'' = JNull then (Inr (err ''Missing 'task' field''), b)
      else case jget m ''queue'' of
        JStr q \<Rightarrow>
          (case check_and_consume (env_monotonic e) (queue_depth (bk_qm b)) (average_latency_ms (bk_wr b)) q (bk_ls b) of
             ((allowed, retry_after), ls) \<Rightarrow>
               (let b1 = b\<lparr>bk_ls := ls\<rparr>
                in if \<not> allowed
                   then (Inr (JDict [(''status'', JStr ''rate_limited''),
                                     (''retry_after_seconds'', JFloat retry_after),
                                     (''reason'', JStr ''Queue overloaded. Please back off.'')]), b1)
                   else case enqueue (env_uuid e) (env_time e) q (jget m ''task'') (bk_qm b1) of
                     (tid, qm) \<Rightarrow>
                       (let b2 = b1\<lparr>bk_qm := qm, bk_mc := record_produce (env_monotonic e) q (bk_mc b1)\<rparr>;
                            b3 = persist_new (env_time e) q tid b2
                        in (Inr (JDict [(''status'', JStr ''ok''), (''task_id'', JStr tid)]), b3))))
      | JList _ \<Rightarrow> (Inl TypeError, b)
      | JDict _ \<Rightarrow> (Inl TypeError, b)
      | _ \<Rightarrow> (Inl (IllTyped ''queue''), b))"

text \<open>A list or an object is not hashable: as a queue name it fails before anything happens, as a
  worker identifier only in \<open>assign_task\<close>, after the task has been dequeued.\<close>

definition handle_consume :: "call_env \<Rightarrow> message \<Rightarrow> broker \<Rightarrow> (exn + json) \<times> broker" where
  "handle_consume e m b =
     (if \<not> truthy (jget m ''queue'') then (Inr (err ''Missing 'queue' field''), b)
      else if \<not> truthy (jget m ''worker_id'') then (Inr (err ''Missing 'worker_id' field''), b)
      else case jget m ''queue'' of
        JStr q \<Rightarrow>
          (case dequeue q (jget m ''worker_id'') (bk_qm b) of
             (None, qm) \<Rightarrow> (Inr (JDict [(''status'', JStr ''empty'')]), b\<lparr>bk_qm := qm\<rparr>)
           | (Some v, qm) \<Rightarrow>
               (case jget m ''worker_id'' of
                  JStr w \<Rightarrow>
                    (let b1 = b\<lparr>bk_qm := qm,
                                bk_wr := assign_task (env_monotonic e) w (tv_task_id v) (bk_wr b),
                                bk_mc := record_consume (env_monotonic e) q (tv_task_id v) (bk_mc b)\<rparr>;
                         b2 = with_wal (\<lambda>ws. snd (update_task_status (env_time e) (tv_task_id v) ''in_flight''
                                                   (Some (tv_attempts v)) (Some w) ws)) b1
                     in (Inr (JDict [(''status'', JStr ''ok''), (''task'', task_view_json v)]), b2))
                | JList _ \<Rightarrow> (Inl TypeError, b\<lparr>bk_qm := qm\<rparr>)
                | JDict _ \<Rightarrow> (Inl TypeError, b\<lparr>bk_qm := qm\<rparr>)
                | _ \<Rightarrow> (Inl (IllTyped ''worker_id''), b\<lparr>bk_qm := qm\<rparr>)))
      | JList _ \<Rightarrow> (Inl TypeError, b)
      | JDict _ \<Rightarrow> (Inl TypeError, b)
      | _ \<Rightarrow> (Inl (IllTyped ''queue''), b))"

text \<open>\<open>queues or []\<close>: a list of names, or nothing.\<close>

fun str_list :: "json list \<Rightarrow> string list option" where
  "str_list [] = Some []"
| "str_list (JStr s # js) = map_option (Cons s) (str_list js)"
| "str_list (_ # js) = None"

definition queues_field :: "json \<Rightarrow> string list option" where
  "queues_field j = (if \<not> truthy j then Some [] else case j of JList js \<Rightarrow> str_list js | _ \<Rightarrow> None)"

definition handle_register :: "call_env \<Rightarrow> message \<Rightarrow> broker \<Rightarrow> (exn + json) \<times> broker" where
  "handle_register e m b =
     (if \<not> truthy (jget m ''worker_id'') then (Inr (err ''Missing 'worker_id' field''), b)
      else case (jget m ''worker_id'', queues_field (dict_get_or m ''queues'' (JList []))) of
        (JStr w, Some qs) \<Rightarrow>
          (case register (env_time e) w (env_peer e) qs (env_conn e) (bk_wr b) of (is_new, reg) \<Rightarrow>
             (Inr (JDict [(''status'', JStr ''ok''), (''registered'', JBool is_new),
                          (''message'', JStr (''Worker '' @ [CHR 0x27] @ w @ [CHR 0x27] @ '' registered''))]),
              b\<lparr>bk_wr := reg\<rparr>))
      | (JStr _, None) \<Rightarrow> (Inl (IllTyped ''queues''), b)
      | (JList _, _) \<Rightarrow> (Inl TypeError, b)
      | (JDict _, _) \<Rightarrow> (Inl TypeError, b)
      | _ \<Rightarrow> (Inl (IllTyped ''worker_id''), b))"

definition handle_heartbeat :: "call_env \<Rightarrow> message \<Rightarrow> broker \<Rightarrow> (exn + json) \<times> broker" where
  "handle_heartbeat e m b =
     (if \<not> truthy (jget m ''worker_id'') then (Inr (err ''Missing 'worker_id' field''), b)
      else case jget m ''worker_id'' of
        JStr w \<Rightarrow>
          (case record_heartbeat (env_time e) w (bk_wr b) of (found, reg) \<Rightarrow>
             (Inr (if found then JDict [(''status'', JStr ''ok'')] else err (''Unknown worker: '' @ w)),
              b\<lparr>bk_wr := reg\<rparr>))
      | JList _ \<Rightarrow> (Inl TypeError, b)
      | JDict _ \<Rightarrow> (Inl TypeError, b)
      | _ \<Rightarrow> (Inl (IllTyped ''worker_id''), b))"

text \<open>\<open>complete_task\<close> with the raw \<open>worker_id\<close> field: a list or object is not hashable, any
  other value that is not a string names no worker.\<close>

definition complete_task_field :: "time \<Rightarrow> json \<Rightarrow> string \<Rightarrow> worker_registry \<Rightarrow> exn + worker_registry" where
  "complete_task_field mnow wid tid reg =
     (case wid of
        JStr w \<Rightarrow> Inr (complete_task mnow w tid reg)
      | JList _ \<Rightarrow> Inl TypeError
      | JDict _ \<Rightarrow> Inl TypeError
      | _ \<Rightarrow> Inr reg)"

definition not_in_flight :: "string \<Rightarrow> json" where
  "not_in_flight tid = err (''Task '' @ tid @ '' not found in-flight'')"

text \<open>A number or \<open>true\<close> as \<open>task_id\<close> is not in flight, and cutting it to eight characters for the
  log message then raises.\<close>

definition handle_ack :: "call_env \<Rightarrow> message \<Rightarrow> broker \<Rightarrow> (exn + json) \<times> broker" where
  "handle_ack e m b =
     (if \<not> truthy (jget m ''task_id'') then (Inr (err ''Missing 'task_id' field''), b)
      else case jget m ''task_id'' of
        JStr tid \<Rightarrow>
          (case acknowledge tid (bk_qm b) of
             (False, qm) \<Rightarrow> (Inr (not_in_flight tid), b\<lparr>bk_qm := qm\<rparr>)
           | (True, qm) \<Rightarrow>
               (let b1 = b\<lparr>bk_qm := qm\<rparr>
                in case complete_task_field (env_monotonic e) (dict_get_or m ''worker_id'' (JStr [])) tid (bk_wr b1) of
                     Inl x \<Rightarrow> (Inl x, b1)
                   | Inr reg \<Rightarrow>
                       (let b2 = b1\<lparr>bk_wr := reg\<rparr>
                        in case dict_get_or m ''queue'' (JStr ''unknown'') of
                             JStr q \<Rightarrow>
                               (let b3 = b2\<lparr>bk_mc := record_ack (env_monotonic e) q tid (bk_mc b2)\<rparr>;
                                    b4 = with_wal (\<lambda>ws. snd (update_task_status (env_time e) tid ''done'' None None ws)) b3
                                in (Inr (JDict [(''status'', JStr ''ok''),
                                                (''message'', JStr (''Task '' @ tid @ '' acknowledged''))]), b4))
                           | JList _ \<Rightarrow> (Inl TypeError, b2)
                           | JDict _ \<Rightarrow> (Inl TypeError, b2)
                           | _ \<Rightarrow> (Inl (IllTyped ''queue''), b2))))
      | JList _ \<Rightarrow> (Inl (IllTyped ''task_id''), b)
      | JDict _ \<Rightarrow> (Inl (IllTyped ''task_id''), b)
      | _ \<Rightarrow> (Inl TypeError, b))"

text \<open>The stub written to the dead letter table: its payload is looked up among the first
  hundred entries of the in-memory dead letter queue and is empty when it is not there.\<close>

definition dlq_stub :: "time \<Rightarrow> string \<Rightarrow> string \<Rightarrow> int \<Rightarrow> dead_letter_queue \<Rightarrow> task" where
  "dlq_stub now tid q n d =
     (let stub = (new_task tid q (JDict []) now)\<lparr>attempts := n\<rparr>
      in case find (\<lambda>dt. de_task_id dt = tid) (dlq_peek 100 d) of
           None \<Rightarrow> stub
         | Some dt \<Rightarrow> stub\<lparr>payload := de_payload dt\<rparr>)"

definition nack_response :: "string \<Rightarrow> nack_result \<Rightarrow> json" where
  "nack_response tid r =
     (case r of
        Dead_lettered _ n _ \<Rightarrow>
          JDict [(''status'', JStr ''ok''), (''action'', JStr ''dead_lettered''), (''attempts'', JInt n),
                 (''message'', JStr (''Task '' @ tid @ '' moved to DLQ''))]
      | Requeued _ n _ _ \<Rightarrow>
          JDict [(''status'', JStr ''ok''), (''action'', JStr ''requeued''), (''attempts'', JInt n),
                 (''message'', JStr (''Task '' @ tid @ '' re-queued for retry''))])"

definition handle_nack :: "call_env \<Rightarrow> message \<Rightarrow> broker \<Rightarrow> (exn + json) \<times> broker" where
  "handle_nack e m b =
     (if \<not> truthy (jget m ''task_id'') then (Inr (err ''Missing 'task_id' field''), b)
      else case jget m ''task_id'' of
        JStr tid \<Rightarrow>
          (case negative_acknowledge (env_time e) tid (bk_qm b) of
             (None, qm) \<Rightarrow> (Inr (not_in_flight tid), b\<lparr>bk_qm := qm\<rparr>)
           | (Some r, qm) \<Rightarrow>
               (let b1 = b\<lparr>bk_qm := qm\<rparr>
                in case complete_task_field (env_monotonic e) (dict_get_or m ''worker_id'' (JStr [])) tid (bk_wr b1) of
                     Inl x \<Rightarrow> (Inl x, b1)
                   | Inr reg \<Rightarrow>
                       (let b2 = b1\<lparr>bk_wr := reg\<rparr>;
                            b4 = (case r of
                              Dead_lettered _ n q \<Rightarrow>
                                with_wal (add_to_dlq (env_time e) (dlq_stub (env_time e) tid q n (qm_dlq (bk_qm b2)))
                                            ''max retries exceeded'')
                                  (b2\<lparr>bk_mc := record_nack q tid True (bk_mc b2)\<rparr>)
                            | Requeued _ n _ q \<Rightarrow>
                                with_wal (\<lambda>ws. snd (update_task_status (env_time e) tid ''pending'' (Some n) None ws))
                                  (b2\<lparr>bk_mc := record_nack q tid False (bk_mc b2)\<rparr>))
                        in (Inr (nack_response tid r), b4))))
      | JList _ \<Rightarrow> (Inl (IllTyped ''task_id''), b)
      | JDict _ \<Rightarrow> (Inl (IllTyped ''task_id''), b)
      | _ \<Rightarrow> (Inl TypeError, b))"

section \<open>Administration commands\<close>

text \<open>An optional queue filter (\<open>None\<close>: a value the model does not follow), and the \<open>limit\<close>.\<close>

definition queue_filter :: "json \<Rightarrow> string option option" where
  "queue_filter j = (if \<not> truthy j then Some None else case j of JStr q \<Rightarrow> Some (Some q) | _ \<Rightarrow> None)"

definition limit_field :: "json \<Rightarrow> int option" where
  "limit_field j = (case j of JInt n \<Rightarrow> Some n | JBool x \<Rightarrow> Some (of_bool x) | _ \<Rightarrow> None)"

text \<open>A dead letter row as a dictionary; the payload text is parsed where it is JSON.\<close>

definition dlq_row_json :: "string \<times> dlq_row \<Rightarrow> json" where
  "dlq_row_json row =
     (case row of (tid, r) \<Rightarrow>
        JDict [(''task_id'', JStr tid), (''queue_name'', JStr (dr_queue_name r)),
               (''payload'', case dr_payload r of Dumped j \<Rightarrow> j | Raw s \<Rightarrow> JStr s),
               (''final_error'', JStr (dr_final_error r)), (''attempts'', JInt (dr_attempts r)),
               (''dead_lettered_at'', JFloat (dr_dead_lettered_at r))])"

definition dlq_listing :: "string option \<Rightarrow> int \<Rightarrow> broker \<Rightarrow> json list" where
  "dlq_listing f limit b =
     (case bk_wal b of
        Some ws \<Rightarrow> map dlq_row_json (get_dlq_tasks f limit ws)
      | None \<Rightarrow>
          map dlq_entry_json
            (filter (\<lambda>d. in_queue_filter f (de_queue_name d)) (dlq_peek limit (qm_dlq (bk_qm b)))))"

definition handle_dlq_list :: "call_env \<Rightarrow> message \<Rightarrow> broker \<Rightarrow> (exn + json) \<times> broker" where
  "handle_dlq_list e m b =
     (case (queue_filter (jget m ''queue''), limit_field (dict_get_or m ''limit'' (JInt 50))) of
        (Some f, Some limit) \<Rightarrow>
          (let tasks = dlq_listing f limit b
           in (Inr (JDict [(''status'', JStr ''ok''), (''count'', JInt (int (length tasks))),
                           (''tasks'', JList tasks)]), b))
      | (None, _) \<Rightarrow> (Inl (IllTyped ''queue''), b)
      | (_, None) \<Rightarrow> (Inl (IllTyped ''limit''), b))"

definition not_in_dlq :: "string \<Rightarrow> json" where
  "not_in_dlq tid = err (''Task '' @ tid @ '' not found in DLQ'')"

definition replayed :: "string \<Rightarrow> string \<Rightarrow> json" where
  "replayed tid new_tid =
     JDict [(''status'', JStr ''ok''), (''action'', JStr ''replayed''),
            (''original_task_id'', JStr tid), (''new_task_id'', JStr new_tid)]"

definition handle_dlq_replay :: "call_env \<Rightarrow> message \<Rightarrow> broker \<Rightarrow> (exn + json) \<times> broker" where
  "handle_dlq_replay e m b =
     (if \<not> truthy (jget m ''task_id'') then (Inr (err ''Missing 'task_id' field''), b)
      else case jget m ''task_id'' of
        JStr tid \<Rightarrow>
          (case bk_wal b of
             Some ws \<Rightarrow>
               (case replay_dlq_task tid ws of
                  (None, ws1) \<Rightarrow> (Inr (not_in_dlq tid), b\<lparr>bk_wal := Some ws1\<rparr>)
                | (Some row, ws1) \<Rightarrow>
                    (let b1 = b\<lparr>bk_wal := Some ws1\<rparr>
                     in case json_loads (dr_payload row) of
                          Inl x \<Rightarrow> (Inl x, b1)
                        | Inr p \<Rightarrow>
                            (case enqueue (env_uuid e) (env_time e) (dr_queue_name row) p (bk_qm b1) of
                               (new_tid, qm) \<Rightarrow>
                                 (Inr (replayed tid new_tid),
                                  persist_new (env_time e) (dr_queue_name row) new_tid (b1\<lparr>bk_qm := qm\<rparr>)))))
           | None \<Rightarrow>
               (case retry_dead tid (bk_qm b) of (success, qm) \<Rightarrow>
                  (if success then Inr (replayed tid tid) else Inr (not_in_dlq tid), b\<lparr>bk_qm := qm\<rparr>)))
      | _ \<Rightarrow> (Inl (IllTyped ''task_id''), b))"

definition purge_queue :: "string \<Rightarrow> dead_letter_queue \<Rightarrow> nat \<times> dead_letter_queue" where
  "purge_queue q d =
     (let to_remove = map fst (filter (\<lambda>(_, t). queue_name t = q) (dlq_tasks d))
      in (length to_remove, fold (\<lambda>tid d. snd (dlq_remove tid d)) to_remove d))"

definition handle_dlq_purge :: "call_env \<Rightarrow> message \<Rightarrow> broker \<Rightarrow> (exn + json) \<times> broker" where
  "handle_dlq_purge e m b =
     (case queue_filter (jget m ''queue'') of
        None \<Rightarrow> (Inl (IllTyped ''queue''), b)
      | Some f \<Rightarrow>
          (case (case bk_wal b of
                   Some ws \<Rightarrow> (case purge_dlq f ws of (n, ws1) \<Rightarrow> (n, b\<lparr>bk_wal := Some ws1\<rparr>))
                 | None \<Rightarrow>
                     (case (case f of Some q \<Rightarrow> purge_queue q (qm_dlq (bk_qm b))
                                    | None \<Rightarrow> dlq_purge (qm_dlq (bk_qm b))) of
                        (n, d) \<Rightarrow> (n, b\<lparr>bk_qm := (bk_qm b)\<lparr>qm_dlq := d\<rparr>\<rparr>))) of
             (purged, b1) \<Rightarrow>
               (Inr (JDict [(''status'', JStr ''ok''), (''action'', JStr ''purged''),
                            (''count'', JInt (int purged))]), b1)))"

definition handle_stats :: "call_env \<Rightarrow> message \<Rightarrow> broker \<Rightarrow> (exn + json) \<times> broker" where
  "handle_stats e m b =
     (case ls_get_stats (env_monotonic e) (queue_depth (bk_qm b)) (average_latency_ms (bk_wr b)) (bk_ls b) of
        (shed, ls) \<Rightarrow>
          (Inr (JDict
            ([(''status'', JStr ''ok''),
              (''queue_manager'', JDict (qm_get_stats (bk_qm b))),
              (''worker_registry'', JDict (wr_get_stats (bk_wr b))),
              (''load_shedder'', JDict shed),
              (''metrics'', JDict (mc_get_stats (env_monotonic e) (bk_mc b))),
              (''active_connections'', JInt (int (bk_active_connections b)))] @
             (case bk_wal b of None \<Rightarrow> [] | Some ws \<Rightarrow> [(''wal_store'', JDict (ws_get_stats ws))]))),
           b\<lparr>bk_ls := ls\<rparr>))"

text \<open>The metrics snapshot, with the live queue depths written over the placeholders.\<close>

definition fill_depth :: "queue_manager \<Rightarrow> string \<times> json \<Rightarrow> string \<times> json" where
  "fill_depth qm entry =
     (case entry of
        (name, JDict kvs) \<Rightarrow> (name, JDict (dict_set ''depth'' (JInt (int (queue_depth qm name))) kvs))
      | other \<Rightarrow> other)"

definition dlq_total :: "broker \<Rightarrow> nat" where
  "dlq_total b =
     (case bk_wal b of
        Some ws \<Rightarrow> length (get_dlq_tasks None 100 ws)
      | None \<Rightarrow> length (dlq_peek 1000 (qm_dlq (bk_qm b))))"

definition active_worker_json :: "worker_info \<Rightarrow> json" where
  "active_worker_json w =
     JDict [(''id'', JStr (wi_worker_id w)), (''latency_ms'', JInt 0),
            (''status'', JStr (worker_status_str (wi_status w)))]"

definition get_metrics_snapshot :: "call_env \<Rightarrow> broker \<Rightarrow> json \<times> broker" where
  "get_metrics_snapshot e b =
     (let now = env_monotonic e; names = get_all_queue_names (bk_qm b) in
      case snapshot_queues now names [] (bk_mc b) of (queues, mc) \<Rightarrow>
      case ls_get_stats now (queue_depth (bk_qm b)) (average_latency_ms (bk_wr b)) (bk_ls b) of (shed, ls) \<Rightarrow>
        (JDict
          [(''queues'', JDict (map (fill_depth (bk_qm b)) queues)),
           (''broker'', JDict [(''uptime_seconds'', JFloat (py_round 1 (uptime_seconds now mc))),
                               (''tracked_in_flight'', JInt (int (length (mc_dequeue_timestamps mc)))),
                               (''in_flight_tasks'', JInt (int (in_flight_count (bk_qm b)))),
                               (''active_connections'', JInt (int (bk_active_connections b)))]),
           (''status'', JStr ''ok''),
           (''workers'', JDict [(''active'', JList (map active_worker_json (get_active_workers (bk_wr b)))),
                                (''evicted_count'', JInt (int (wr_total_evictions (bk_wr b))))]),
           (''dlq'', JDict [(''total_tasks'', JInt (int (dlq_total b)))]),
           (''load_shedder'', JDict shed)],
         b\<lparr>bk_mc := mc, bk_ls := ls\<rparr>))"

definition handle_metrics :: "call_env \<Rightarrow> message \<Rightarrow> broker \<Rightarrow> (exn + json) \<times> broker" where
  "handle_metrics e m b = (case get_metrics_snapshot e b of (j, b1) \<Rightarrow> (Inr j, b1))"

section \<open>Dispatch\<close>

definition handlers :: "(string, call_env \<Rightarrow> message \<Rightarrow> broker \<Rightarrow> (exn + json) \<times> broker) dict" where
  "handlers =
     [(''PRODUCE'', handle_produce), (''CONSUME'', handle_consume), (''REGISTER'', handle_register),
      (''HEARTBEAT'', handle_heartbeat), (''ACK'', handle_ack), (''NACK'', handle_nack),
      (''DLQ_LIST'', handle_dlq_list), (''DLQ_REPLAY'', handle_dlq_replay),
      (''DLQ_PURGE'', handle_dlq_purge), (''STATS'', handle_stats), (''METRICS'', handle_metrics)]"

definition dispatch :: "call_env \<Rightarrow> json \<Rightarrow> broker \<Rightarrow> (exn + json) \<times> broker" where
  "dispatch e msg b =
     (case msg of
        JDict m \<Rightarrow>
          (if \<not> truthy (jget m ''command'') then (Inr (err ''Missing 'command' field''), b)
           else case jget m ''command'' of
             JStr c \<Rightarrow>
               (case dict_get handlers c of
                  None \<Rightarrow> (Inr (err (''Unknown command: '' @ c)), b)
                | Some h \<Rightarrow> h e m b)
           | JList _ \<Rightarrow> (Inl TypeError, b)
           | JDict _ \<Rightarrow> (Inl TypeError, b)
           | _ \<Rightarrow> (Inl (IllTyped ''command''), b))
      | _ \<Rightarrow> (Inl AttributeError, b))"

section \<open>Dashboard handlers\<close>

definition ok_message :: "string \<Rightarrow> json" where
  "ok_message s = JDict [(''status'', JStr ''ok''), (''message'', JStr s)]"

text \<open>\<open>random.choice\<close> is the parameter \<open>pick\<close>. Closing the worker's connection has no effect on
  the broker's own state.\<close>

definition crash_worker_handler ::
  "(worker_info list \<Rightarrow> worker_info) \<Rightarrow> call_env \<Rightarrow> broker \<Rightarrow> json \<times> broker" where
  "crash_worker_handler pick e b =
     (let active = get_active_workers (bk_wr b)
      in if active = []
         then (JDict [(''status'', JStr ''error''), (''message'', JStr ''No active workers to crash'')], b)
         else
           (let w = pick active;
                reg = (bk_wr b)\<lparr>wr_workers :=
                        dict_set (wi_worker_id w) (w\<lparr>wi_last_heartbeat := env_time e - 10\<rparr>) (wr_workers (bk_wr b))\<rparr>
            in (ok_message (''Worker '' @ wi_worker_id w @ '' crashed''), b\<lparr>bk_wr := reg\<rparr>)))"

fun retry_each :: "string list \<Rightarrow> nat \<times> queue_manager \<Rightarrow> nat \<times> queue_manager" where
  "retry_each [] (n, qm) = (n, qm)"
| "retry_each (tid # tids) (n, qm) =
     (case retry_dead tid qm of (success, qm1) \<Rightarrow> retry_each tids (if success then Suc n else n, qm1))"

definition replay_dlq_handler :: "broker \<Rightarrow> json \<times> broker" where
  "replay_dlq_handler b =
     (case retry_each (map de_task_id (dlq_peek 1000 (qm_dlq (bk_qm b)))) (0, bk_qm b) of
        (n, qm) \<Rightarrow> (ok_message (''Replayed '' @ py_str n @ '' tasks''), b\<lparr>bk_qm := qm\<rparr>))"

definition reset_handler :: "call_env \<Rightarrow> broker \<Rightarrow> json \<times> broker" where
  "reset_handler e b =
     (ok_message ''System fully reset to scratch'',
      with_wal clear_all_data
        (b\<lparr>bk_qm := qm_reset (bk_qm b), bk_mc := mc_reset (env_monotonic e) (bk_mc b)\<rparr>))"

section \<open>Start and stop\<close>

text \<open>Crash recovery: every unfinished row is enqueued again under its own identifier and its
  row is set back to pending. A payload that is not JSON stops the start.\<close>

fun recover_rows :: "time \<Rightarrow> (string \<times> task_row) list \<Rightarrow> queue_manager \<times> wal_store \<Rightarrow> (exn + nat) \<times> queue_manager \<times> wal_store" where
  "recover_rows now [] s = (Inr 0, s)"
| "recover_rows now ((tid, r) # rows) (qm, ws) =
     (case json_loads (tr_payload r) of
        Inl x \<Rightarrow> (Inl x, qm, ws)
      | Inr p \<Rightarrow>
          (case recover_rows now rows
                  (snd (enqueue_recovered now (tr_queue_name r) tid p (tr_attempts r) qm),
                   snd (update_task_status now tid ''pending'' (Some (tr_attempts r)) None ws)) of
             (Inl x, s) \<Rightarrow> (Inl x, s)
           | (Inr n, s) \<Rightarrow> (Inr (Suc n), s)))"

definition bk_start :: "time \<Rightarrow> broker \<Rightarrow> (exn + nat) \<times> broker" where
  "bk_start now b =
     (case bk_wal b of
        None \<Rightarrow> (Inr 0, b\<lparr>bk_server := True, bk_wr := (bk_wr b)\<lparr>wr_eviction_task := True\<rparr>\<rparr>)
      | Some ws \<Rightarrow>
          (case recover_rows now (load_pending_tasks ws) (bk_qm b, ws) of
             (Inl x, qm, ws1) \<Rightarrow> (Inl x, b\<lparr>bk_qm := qm, bk_wal := Some ws1\<rparr>)
           | (Inr n, qm, ws1) \<Rightarrow>
               (Inr n, b\<lparr>bk_qm := qm, bk_wal := Some ws1, bk_server := True,
                         bk_wr := (bk_wr b)\<lparr>wr_eviction_task := True\<rparr>\<rparr>)))"

definition bk_stop :: "broker \<Rightarrow> broker" where
  "bk_stop b =
     (if bk_server b
      then with_wal ws_close (b\<lparr>bk_wr := stop_eviction_loop (bk_wr b)\<rparr>)
      else b)"

text \<open>A wake-up of the eviction loop in the broker.\<close>

definition evict_tick :: "(string list \<Rightarrow> string list) \<Rightarrow> time \<Rightarrow> broker \<Rightarrow> broker" where
  "evict_tick ord now b =
     (case evict_dead_workers ord (Some requeue_by_id) now (bk_wr b, bk_qm b) of
        (reg, qm) \<Rightarrow> b\<lparr>bk_wr := reg, bk_qm := qm\<rparr>)"

end
