(* ===== verification/Durability.thy ===== *)
theory Durability
  imports Broker_Server
begin

text \<open>
  Crash safety of a broker with a persistent store. Every unfinished task in memory (pending or
  in flight) has an unfinished row of the store with its identifier, queue and payload; as long as
  no command has raised, tasks and rows are the same, attempt counts included (\<open>durable\<close>). Every
  command of the wire protocol, every eviction pass, the dashboard's reset and crash-worker
  actions and a restart keep that, and recovery rebuilds exactly the rows. The dashboard's
  replay of the whole dead letter queue is not among the steps: it does not write to the store
  (theory \<open>Known_Gaps\<close>).
\<close>

section \<open>Unfinished tasks in memory\<close>

type_synonym work_item = "string \<times> string \<times> json \<times> int"

definition item :: "task \<Rightarrow> work_item" where
  "item t = (task_id t, queue_name t, payload t, attempts t)"

definition work :: "queue_manager \<Rightarrow> task multiset" where
  "work qm = pending qm + mset (dict_values (qm_in_flight qm))"

definition live :: "queue_manager \<Rightarrow> work_item set" where
  "live qm = item ` set_mset (work qm)"

text \<open>An item without its attempt count.\<close>

definition strip :: "work_item \<Rightarrow> string \<times> string \<times> json" where
  "strip x = (fst x, fst (snd x), fst (snd (snd x)))"

lemma strip_simps [simp]: "strip (tid, q, p, n) = (tid, q, p)" "fst (strip x) = fst x"
  by (simp_all add: strip_def)

lemma strip_imageD: "(tid, q, p) \<in> strip ` S \<Longrightarrow> \<exists>n. (tid, q, p, n) \<in> S"
  by (auto simp: strip_def)

lemma item_sel [simp]: "fst (item t) = task_id t"
  by (simp add: item_def)

lemma item_update [simp]:
  "item (t\<lparr>status := s\<rparr>) = item t" "item (t\<lparr>assigned_worker := w\<rparr>) = item t"
  by (simp_all add: item_def)

lemma work_no_dups: "qm_ok qm \<Longrightarrow> no_dups (image_mset task_id (work qm))"
  unfolding qm_ok_def qm_pool_def work_def
  by (elim conjE, erule no_dups_subset) (simp add: image_mset_union)

lemma live_remove:
  assumes "no_dups (image_mset task_id (add_mset t N))"
  shows "item ` set_mset N = {x \<in> item ` set_mset (add_mset t N). fst x \<noteq> task_id t}"
proof -
  have "task_id u \<noteq> task_id t" if "u \<in># N" for u
    using assms that by (auto simp: image_iff)
  then show ?thesis by auto
qed

lemma work_flight_del:
  "qm_wf qm \<Longrightarrow> dict_get (qm_in_flight qm) tid = Some t \<Longrightarrow>
     work qm = add_mset t (work (qm\<lparr>qm_in_flight := dict_del tid (qm_in_flight qm)\<rparr>))"
  using mset_values_del [of "qm_in_flight qm" tid t] by (simp add: work_def qm_wf_sel)

lemma work_counters [simp]:
  "work (qm\<lparr>total_enqueued := n\<rparr>) = work qm" "work (qm\<lparr>total_dequeued := n\<rparr>) = work qm"
  "work (qm\<lparr>total_acked := n\<rparr>) = work qm" "work (qm\<lparr>total_nacked := n\<rparr>) = work qm"
  "work (qm\<lparr>total_dead_lettered := n\<rparr>) = work qm" "work (qm\<lparr>qm_completed := c\<rparr>) = work qm"
  "work (qm\<lparr>qm_dlq := d\<rparr>) = work qm"
  by (simp_all add: work_def)

lemma work_requeue [simp]:
  "work (requeue t front qm) = add_mset (t\<lparr>status := Pending, assigned_worker := None\<rparr>) (work qm)"
  by (simp add: work_def)

lemma live_cong: "work qm' = work qm \<Longrightarrow> live qm' = live qm"
  by (simp add: live_def)

lemma live_counters [simp]:
  "live (qm\<lparr>total_enqueued := n\<rparr>) = live qm" "live (qm\<lparr>total_dequeued := n\<rparr>) = live qm"
  "live (qm\<lparr>total_acked := n\<rparr>) = live qm" "live (qm\<lparr>total_nacked := n\<rparr>) = live qm"
  "live (qm\<lparr>total_dead_lettered := n\<rparr>) = live qm" "live (qm\<lparr>qm_completed := c\<rparr>) = live qm"
  "live (qm\<lparr>qm_dlq := d\<rparr>) = live qm"
  by (simp_all add: live_def)

lemma live_requeue [simp]: "live (requeue t front qm) = insert (item t) (live qm)"
  by (simp add: live_def)

text \<open>An identifier has one item.\<close>

lemma live_unique:
  assumes "qm_ok qm" and "x \<in> live qm" and "y \<in> live qm" and "fst x = fst y"
  shows "x = y"
proof -
  obtain t u where t: "t \<in># work qm" "x = item t" and u: "u \<in># work qm" "y = item u"
    using assms(2,3) by (auto simp: live_def)
  obtain N where N: "work qm = add_mset t N" using t(1) by (metis mset_add)
  then have "task_id t \<notin># image_mset task_id N" using work_no_dups [OF assms(1)] by simp
  then have "u \<notin># N" using assms(4) t(2) u(2) by (metis image_mset_add_mset insert_DiffM item_sel union_single_eq_member)
  then show ?thesis using N u t(2) by auto
qed

text \<open>What each operation does to the unfinished tasks.\<close>

lemma live_enqueue: "live (snd (enqueue tid now q p qm)) = insert (tid, q, p, 0) (live qm)"
  by (simp add: live_def work_def enqueue_eq item_def)

lemma live_enqueue_recovered:
  "live (snd (enqueue_recovered now q tid p n qm)) = insert (tid, q, p, n) (live qm)"
  by (simp add: live_def work_def enqueue_recovered_eq item_def)

lemma live_dequeue_None:
  assumes "qm_ok qm" and "dequeue q w qm = (None, qm')"
  shows "live qm' = live qm"
proof -
  have "dict_ok (qm_queues qm)" using assms(1) by (simp add: qm_ok_def qm_wf_sel)
  then show ?thesis
    by (rule dequeue_cases [of qm q w]) (use assms(2) in \<open>auto intro!: live_cong simp: work_def\<close>)
qed

lemma live_dequeue_Some:
  assumes "qm_ok qm" and "dequeue q w qm = (Some v, qm')"
  shows "\<exists>n. tv_attempts v = n + 1 \<and>
           (tv_task_id v, tv_queue_name v, tv_payload v, n) \<in> live qm \<and>
           live qm' = insert (tv_task_id v, tv_queue_name v, tv_payload v, n + 1) {x \<in> live qm. fst x \<noteq> tv_task_id v}"
proof -
  have "dict_ok (qm_queues qm)" using assms(1) by (simp add: qm_ok_def qm_wf_sel)
  then show ?thesis
  proof (rule dequeue_cases [of qm q w])
    assume "fst (dequeue q w qm) = None"
    with assms(2) show ?thesis by simp
  next
    fix q' t ts
    assume queue: "queue_of qm q' = t # ts"
      and eq: "dequeue q w qm =
         (Some (view_of (take_in_flight w t)),
          (put_queue q' ts qm)\<lparr>qm_in_flight := dict_set (task_id t) (take_in_flight w t) (qm_in_flight qm),
                               total_dequeued := Suc (total_dequeued qm)\<rparr>)"
    let ?N = "pending (put_queue q' ts qm) + mset (dict_values (qm_in_flight qm))"
    have pend: "pending qm = add_mset t (pending (put_queue q' ts qm))" by (rule pending_pop [OF queue])
    then have work: "work qm = add_mset t ?N" by (simp add: work_def)
    have "dict_get (qm_in_flight qm) (task_id t) = None"
      using pend by (intro qm_ok_pending_flight [OF assms(1)]) simp
    then have work': "work qm' = add_mset (take_in_flight w t) ?N"
      using assms(2) eq mset_values_new [of "qm_in_flight qm" "task_id t" "take_in_flight w t"]
      by (auto simp: work_def)
    have "item ` set_mset ?N = {x \<in> live qm. fst x \<noteq> task_id t}"
      using live_remove [of t ?N] work_no_dups [OF assms(1)] by (simp add: work live_def)
    moreover have v: "v = view_of (take_in_flight w t)" using assms(2) eq by simp
    ultimately show ?thesis
      by (intro exI [of _ "attempts t"]) (simp add: live_def work work' view_of_def take_in_flight_def item_def)
  qed
qed

lemma live_flight_del:
  assumes "qm_ok qm" and "dict_get (qm_in_flight qm) tid = Some t"
  shows "live (qm\<lparr>qm_in_flight := dict_del tid (qm_in_flight qm)\<rparr>) = {x \<in> live qm. fst x \<noteq> tid}"
    and "insert (item t) {x \<in> live qm. fst x \<noteq> tid} = live qm"
    and "item t \<in> live qm" and "task_id t = tid"
proof -
  have wf: "qm_wf qm" using assms(1) by (simp add: qm_ok_def)
  show id: "task_id t = tid" using qm_wf_flightD [OF wf assms(2)] by (simp add: flight_ok_def)
  have work: "work qm = add_mset t (work (qm\<lparr>qm_in_flight := dict_del tid (qm_in_flight qm)\<rparr>))"
    by (rule work_flight_del [OF wf assms(2)])
  show del: "live (qm\<lparr>qm_in_flight := dict_del tid (qm_in_flight qm)\<rparr>) = {x \<in> live qm. fst x \<noteq> tid}"
    using live_remove [of t] work_no_dups [OF assms(1)] id work by (simp add: live_def)
  show "item t \<in> live qm" using work by (simp add: live_def)
  show "insert (item t) {x \<in> live qm. fst x \<noteq> tid} = live qm"
    unfolding del [symmetric] using work by (simp add: live_def)
qed

lemma live_acknowledge:
  assumes "qm_ok qm" and "acknowledge tid qm = (True, qm')"
  shows "live qm' = {x \<in> live qm. fst x \<noteq> tid}" and "tid \<in> fst ` live qm"
proof -
  obtain t where t: "dict_get (qm_in_flight qm) tid = Some t"
    and qm': "live qm' = live (qm\<lparr>qm_in_flight := dict_del tid (qm_in_flight qm)\<rparr>)"
    using assms(2) by (auto simp: acknowledge_def split: option.splits)
  show "live qm' = {x \<in> live qm. fst x \<noteq> tid}" using qm' live_flight_del(1) [OF assms(1) t] by simp
  show "tid \<in> fst ` live qm" using live_flight_del(3,4) [OF assms(1) t] by force
qed

lemma live_requeue_by_id:
  assumes "qm_ok qm"
  shows "live (snd (requeue_by_id tid qm)) = live qm"
  using live_flight_del(1,2) [OF assms, of tid] by (simp add: requeue_by_id_eq split: option.split)

text \<open>A negative acknowledgement: the task leaves, or stays with the same data.\<close>

lemma live_negative_acknowledge:
  assumes ok: "qm_ok qm" and run: "negative_acknowledge now tid qm = (Some r, qm')"
  shows "\<exists>t. item t \<in> live qm \<and> task_id t = tid \<and>
           (r = Dead_lettered tid (attempts t) (queue_name t) \<and> live qm' = {x \<in> live qm. fst x \<noteq> tid} \<or>
            (\<exists>mx. r = Requeued tid (attempts t) mx (queue_name t)) \<and> live qm' = live qm)"
proof -
  obtain t where t: "dict_get (qm_in_flight qm) tid = Some t"
    using run by (cases "dict_get (qm_in_flight qm) tid") (auto simp: negative_acknowledge_def nack_take_def)
  have "status t = InFlight" using ok qm_wf_flightD [of qm tid t] t by (simp add: qm_ok_def flight_ok_def)
  note run' = run [unfolded negative_acknowledge_def nack_take_def nack_finish_eq Let_def t]
  show ?thesis
  proof (cases "attempts t \<ge> max_retries qm")
    case True
    with run' have "r = Dead_lettered tid (attempts t) (queue_name t)"
      and "live qm' = live (qm\<lparr>qm_in_flight := dict_del tid (qm_in_flight qm)\<rparr>)"
      using live_flight_del(4) [OF ok t] by auto
    then show ?thesis using live_flight_del(1,3,4) [OF ok t] by metis
  next
    case False
    with run' \<open>status t = InFlight\<close> have "r = Requeued tid (attempts t) (max_retries qm) (queue_name t)"
      and "live qm' = insert (item t) (live (qm\<lparr>qm_in_flight := dict_del tid (qm_in_flight qm)\<rparr>))"
      using live_flight_del(4) [OF ok t] by auto
    then show ?thesis using live_flight_del [OF ok t] by metis
  qed
qed

lemma negative_acknowledge_None:
  "negative_acknowledge now tid qm = (None, qm') \<Longrightarrow> qm' = qm"
  by (cases "dict_get (qm_in_flight qm) tid")
    (auto simp: negative_acknowledge_def nack_take_def Let_def split: if_splits prod.splits)

lemma acknowledge_False: "acknowledge tid qm = (False, qm') \<Longrightarrow> qm' = qm"
  by (auto simp: acknowledge_def split: option.splits)

section \<open>Unfinished rows of the store\<close>

definition row_item :: "task_row \<Rightarrow> (string \<times> json \<times> int) option" where
  "row_item r =
     (if recoverable r
      then (case tr_payload r of Dumped p \<Rightarrow> Some (tr_queue_name r, p, tr_attempts r) | Raw _ \<Rightarrow> None)
      else None)"

definition stored :: "wal_store \<Rightarrow> work_item set" where
  "stored ws = {(tid, x). Option.bind (dict_get (ws_tasks ws) tid) row_item = Some x}"

text \<open>Every payload column holds JSON.\<close>

definition texts_ok :: "wal_store \<Rightarrow> bool" where
  "texts_ok ws \<longleftrightarrow>
     (\<forall>tid r. dict_get (ws_tasks ws) tid = Some r \<longrightarrow> (\<exists>p. tr_payload r = Dumped p)) \<and>
     (\<forall>tid r. dict_get (ws_dlq ws) tid = Some r \<longrightarrow> (\<exists>p. dr_payload r = Dumped p))"

text \<open>No attempt count is negative.\<close>

definition counts_ok :: "wal_store \<Rightarrow> bool" where
  "counts_ok ws \<longleftrightarrow> (\<forall>tid q p n. (tid, q, p, n) \<in> stored ws \<longrightarrow> 0 \<le> n)"

text \<open>Both sides change in the same way: the items of some identifiers leave, some items enter.\<close>

definition revise :: "string set \<Rightarrow> work_item set \<Rightarrow> work_item set \<Rightarrow> work_item set" where
  "revise gone new S = new \<union> {x \<in> S. fst x \<notin> gone}"

lemma revise_nothing [simp]: "revise {} {} S = S"
  by (simp add: revise_def)

lemma revise_mono:
  assumes sub: "strip ` S \<subseteq> strip ` T"
  shows "strip ` revise gone new S \<subseteq> strip ` revise gone new T"
proof -
  have "strip x \<in> strip ` {y \<in> T. fst y \<notin> gone}" if "x \<in> S" "fst x \<notin> gone" for x
  proof -
    obtain y where y: "y \<in> T" "strip y = strip x" using sub \<open>x \<in> S\<close> by (metis imageE imageI subsetD)
    then have "fst y = fst x" by (metis strip_simps(2))
    with y that(2) show ?thesis by (metis (mono_tags, lifting) imageI mem_Collect_eq)
  qed
  then have "strip ` {x \<in> S. fst x \<notin> gone} \<subseteq> strip ` {y \<in> T. fst y \<notin> gone}"
    by (metis (no_types, lifting) image_subsetI mem_Collect_eq)
  then show ?thesis unfolding revise_def image_Un by blast
qed

lemma revise_same: "qm_ok qm \<Longrightarrow> x \<in> live qm \<Longrightarrow> revise {fst x} {x} (live qm) = live qm"
  by (auto simp: revise_def dest: live_unique)

lemma texts_ok_replace:
  "texts_ok ws \<Longrightarrow> texts_ok (save_task now t ws)"
  "texts_ok ws \<Longrightarrow> texts_ok (add_to_dlq now t why ws)"
  "texts_ok ws \<Longrightarrow> texts_ok (snd (update_task_status now tid st att wid ws))"
  "texts_ok ws \<Longrightarrow> texts_ok (snd (replay_dlq_task tid ws))"
  by (auto simp: texts_ok_def save_task_def add_to_dlq_def update_task_status_def replay_dlq_task_def
      json_dumps_def Let_def split: option.splits)

lemma dict_get_filter_Some:
  assumes "dict_ok d" and "dict_get (filter P d) k = Some v"
  shows "dict_get d k = Some v"
  using assms dict_get_content [of d k v] by (auto dest: dict_get_in)

lemma texts_ok_purge: "ws_ok ws \<Longrightarrow> texts_ok ws \<Longrightarrow> texts_ok (snd (purge_dlq f ws))"
  by (auto simp: texts_ok_def purge_dlq_def ws_ok_def dest: dict_get_filter_Some)

text \<open>Changing one row.\<close>

lemma stored_change:
  assumes "\<And>k. k \<noteq> tid \<Longrightarrow> dict_get (ws_tasks ws') k = dict_get (ws_tasks ws) k"
  shows "stored ws' =
         revise {tid} (case Option.bind (dict_get (ws_tasks ws') tid) row_item of None \<Rightarrow> {} | Some x \<Rightarrow> {(tid, x)})
           (stored ws)"
proof -
  have "(k, x) \<in> stored ws' \<longleftrightarrow>
      (if k = tid then Option.bind (dict_get (ws_tasks ws') tid) row_item = Some x else (k, x) \<in> stored ws)" for k x
    using assms [of k] by (simp add: stored_def)
  then show ?thesis by (auto simp: revise_def split: option.splits if_splits)
qed

lemma stored_save:
  assumes "status t = Pending"
  shows "stored (save_task now t ws) = revise {task_id t} {item t} (stored ws)"
  using stored_change [of "task_id t" "save_task now t ws" ws]
  by (simp add: save_task_def row_item_def recoverable_def json_dumps_def item_def assms)

lemma stored_update:
  assumes "(tid, q, p, n) \<in> stored ws"
  shows "stored (snd (update_task_status now tid st att wid ws)) =
         revise {tid} (if st = ''pending'' \<or> st = ''in_flight''
                       then {(tid, q, p, case att of None \<Rightarrow> n | Some m \<Rightarrow> m)} else {}) (stored ws)"
proof -
  obtain r where r: "dict_get (ws_tasks ws) tid = Some r" "tr_queue_name r = q" "tr_payload r = Dumped p"
      "tr_attempts r = n"
    using assms by (auto simp: stored_def row_item_def bind_eq_Some_conv split: if_splits json_text.splits)
  let ?ws = "snd (update_task_status now tid st att wid ws)"
  have "dict_get (ws_tasks ?ws) k = dict_get (ws_tasks ws) k" if "k \<noteq> tid" for k
    using that by (simp add: update_task_status_def r Let_def)
  moreover have "Option.bind (dict_get (ws_tasks ?ws) tid) row_item =
      (if st = ''pending'' \<or> st = ''in_flight'' then Some (q, p, case att of None \<Rightarrow> n | Some m \<Rightarrow> m) else None)"
    by (cases att; cases wid) (simp_all add: update_task_status_def r Let_def row_item_def recoverable_def)
  ultimately show ?thesis using stored_change [of tid ?ws ws] by simp
qed

lemma stored_add_to_dlq: "stored (add_to_dlq now t why ws) = revise {task_id t} {} (stored ws)"
  using stored_change [of "task_id t" "add_to_dlq now t why ws" ws] by (simp add: add_to_dlq_def)

lemma stored_dlq_ops [simp]:
  "stored (snd (replay_dlq_task tid ws)) = stored ws"
  "stored (snd (purge_dlq f ws)) = stored ws"
  by (auto simp: stored_def replay_dlq_task_def purge_dlq_def split: option.split)

section \<open>Commands keep memory and store together\<close>

definition core :: "broker \<Rightarrow> wal_store \<Rightarrow> bool" where
  "core b ws \<longleftrightarrow>
     bk_wal b = Some ws \<and> qm_ok (bk_qm b) \<and> ws_ok ws \<and> texts_ok ws \<and> counts_ok ws \<and>
     strip ` live (bk_qm b) \<subseteq> strip ` stored ws"

text \<open>A new identifier: no task of the manager and no row has it.\<close>

definition fresh_id :: "string \<Rightarrow> broker \<Rightarrow> bool" where
  "fresh_id tid b \<longleftrightarrow>
     tid \<notin># qm_pool (bk_qm b) \<and>
     (\<forall>ws. bk_wal b = Some ws \<longrightarrow> dict_get (ws_tasks ws) tid = None \<and> dict_get (ws_dlq ws) tid = None)"

text \<open>The outcome of a command: memory and store are revised alike; or the command raises before the
  store is written, after it has at most finished tasks in memory or counted a delivery.\<close>

definition together :: "broker \<Rightarrow> wal_store \<Rightarrow> (exn + json) \<Rightarrow> broker \<Rightarrow> bool" where
  "together b ws r b' \<longleftrightarrow>
     (\<exists>ws' gone new.
        bk_wal b' = Some ws' \<and> qm_ok (bk_qm b') \<and> ws_ok ws' \<and> texts_ok ws' \<and>
        (live (bk_qm b') = revise gone new (live (bk_qm b)) \<and> stored ws' = revise gone new (stored ws) \<or>
         isl r \<and> strip ` live (bk_qm b') \<subseteq> strip ` live (bk_qm b) \<and> stored ws' = stored ws))"

lemma together_same:
  assumes "core b ws" and "bk_wal b' = bk_wal b" and "qm_ok (bk_qm b')" and "live (bk_qm b') = live (bk_qm b)"
  shows "together b ws r b'"
  using assms unfolding together_def core_def
  by (intro exI [of _ ws] exI [of _ "{}"] exI [of _ "{}"]) simp

lemma with_wal_sel [simp]:
  "bk_qm (with_wal f b) = bk_qm b" "bk_wr (with_wal f b) = bk_wr b" "bk_ls (with_wal f b) = bk_ls b"
  "bk_mc (with_wal f b) = bk_mc b" "bk_wal (with_wal f b) = map_option f (bk_wal b)"
  by (simp_all add: with_wal_def)

lemma persist_new_last:
  assumes "queue_of (bk_qm b) q = ts @ [t]" and "task_id t = tid"
  shows "persist_new now q tid b = with_wal (save_task now t) b"
  by (simp add: persist_new_def assms)

lemma enqueue_together:
  assumes core: "core b ws" and fresh: "fresh_id tid b" and b1: "bk_qm b1 = bk_qm b" "bk_wal b1 = Some ws1"
    and ws1: "ws_ok ws1" "texts_ok ws1" "stored ws1 = stored ws" "ws_tasks ws1 = ws_tasks ws"
      "dict_get (ws_dlq ws1) tid = None"
    and b2: "bk_qm b2 = snd (enqueue tid now q p (bk_qm b1))" "bk_wal b2 = bk_wal b1"
  shows "together b ws r (persist_new now q tid b2)"
proof -
  let ?t = "new_task tid q p now" and ?qm = "snd (enqueue tid now q p (bk_qm b1))"
  have "queue_of (bk_qm b2) q = queue_of (bk_qm b1) q @ [?t]"
    by (simp add: b2(1) enqueue_eq)
  then have persist: "persist_new now q tid b2 = with_wal (save_task now ?t) b2"
    by (rule persist_new_last) simp
  have "qm_ok ?qm" using core fresh b1 by (auto simp: core_def fresh_id_def intro: qm_ok_ops)
  moreover have "live ?qm = revise {tid} {item ?t} (live (bk_qm b))"
  proof -
    have "tid \<notin> fst ` live (bk_qm b)"
      using fresh by (auto simp: fresh_id_def live_def qm_pool_def work_def rev_image_eqI)
    then have "{x \<in> live (bk_qm b). fst x \<notin> {tid}} = live (bk_qm b)" by force
    then show ?thesis by (simp add: live_enqueue b1 revise_def item_def)
  qed
  moreover have "ws_ok (save_task now ?t ws1)" and "texts_ok (save_task now ?t ws1)"
    using ws1 by (simp_all add: ws_ok_save_task texts_ok_replace)
  moreover have "stored (save_task now ?t ws1) = revise {tid} {item ?t} (stored ws)"
    using stored_save [of ?t now ws1] ws1 by simp
  ultimately show ?thesis
    unfolding together_def persist
    by (intro exI [of _ "save_task now ?t ws1"] exI [of _ "{tid}"] exI [of _ "{item ?t}"])
      (simp add: b1 b2)
qed

lemma togetherI:
  assumes "core b ws"
    and "bk_wal b' = Some ws' \<or> isl r \<and> strip ` new \<subseteq> strip ` live (bk_qm b) \<and> bk_wal b' = Some ws"
    and "qm_ok (bk_qm b')" and "ws_ok ws'" and "texts_ok ws'"
    and "live (bk_qm b') = revise gone new (live (bk_qm b))" and "stored ws' = revise gone new (stored ws)"
  shows "together b ws r b'"
  using assms(2)
proof
  assume "bk_wal b' = Some ws'"
  with assms(3-7) show ?thesis
    unfolding together_def by (intro exI [of _ ws'] exI [of _ gone] exI [of _ new]) simp
next
  assume *: "isl r \<and> strip ` new \<subseteq> strip ` live (bk_qm b) \<and> bk_wal b' = Some ws"
  then have "strip ` live (bk_qm b') \<subseteq> strip ` live (bk_qm b)" using assms(6) by (auto simp: revise_def)
  with * assms(1,3) show ?thesis
    unfolding together_def core_def by (intro exI [of _ ws] exI [of _ gone] exI [of _ new]) simp
qed

text \<open>One lemma per command.\<close>

lemma core_sel:
  "core b ws \<Longrightarrow> bk_wal b = Some ws" "core b ws \<Longrightarrow> qm_ok (bk_qm b)" "core b ws \<Longrightarrow> ws_ok ws"
  "core b ws \<Longrightarrow> texts_ok ws" "core b ws \<Longrightarrow> counts_ok ws"
  by (auto simp: core_def)

lemma core_row:
  assumes "core b ws" and "(tid, q, p, n) \<in> live (bk_qm b)"
  shows "\<exists>k. (tid, q, p, k) \<in> stored ws"
proof -
  have "(tid, q, p) \<in> strip ` live (bk_qm b)" using imageI [OF assms(2), of strip] by simp
  then have "(tid, q, p) \<in> strip ` stored ws" using assms(1) by (auto simp: core_def)
  then show ?thesis by (rule strip_imageD)
qed

lemma produce_together:
  assumes "core b ws" and "fresh_id (env_uuid e) b" and "handle_produce e m b = (r, b')"
  shows "together b ws r b'"
proof (cases "truthy (jget m ''queue'') \<and> jget m ''task'' \<noteq> JNull \<and> (\<exists>q. jget m ''queue'' = JStr q)")
  case False
  then have "b' = b" using assms(3) by (auto simp: handle_produce_def split: if_splits json.splits)
  then show ?thesis using assms(1) by (auto intro: together_same simp: core_sel)
next
  case True
  then obtain q where q: "jget m ''queue'' = JStr q" and ok: "truthy (JStr q)" "jget m ''task'' \<noteq> JNull" by auto
  obtain allowed wait ls where
    shed: "check_and_consume (env_monotonic e) (queue_depth (bk_qm b)) (average_latency_ms (bk_wr b)) q (bk_ls b)
            = ((allowed, wait), ls)"
    by (metis prod.exhaust)
  show ?thesis
  proof (cases allowed)
    case False
    then have "b' = b\<lparr>bk_ls := ls\<rparr>" using assms(3) q ok shed by (auto simp: handle_produce_def)
    then show ?thesis using assms(1) by (auto intro: together_same simp: core_sel)
  next
    case True
    let ?b2 = "b\<lparr>bk_ls := ls, bk_qm := snd (enqueue (env_uuid e) (env_time e) q (jget m ''task'') (bk_qm b)),
                 bk_mc := record_produce (env_monotonic e) q (bk_mc b)\<rparr>"
    have "b' = persist_new (env_time e) q (env_uuid e) ?b2"
      using assms(3) q ok shed True by (auto simp: handle_produce_def enqueue_eq Let_def)
    moreover have "together b ws r (persist_new (env_time e) q (env_uuid e) ?b2)"
      using assms(1,2) core_sel [OF assms(1)]
      by (intro enqueue_together [OF assms(1,2), where ?b1.0 = b and ?ws1.0 = ws])
        (auto simp: fresh_id_def)
    ultimately show ?thesis by simp
  qed
qed

lemma consume_together:
  assumes core: "core b ws" and run: "handle_consume e m b = (r, b')"
  shows "together b ws r b'"
proof (cases "\<exists>q v qm. jget m ''queue'' = JStr q \<and> truthy (JStr q) \<and> truthy (jget m ''worker_id'') \<and>
    dequeue q (jget m ''worker_id'') (bk_qm b) = (Some v, qm)")
  case False
  then have "bk_wal b' = bk_wal b" and "bk_qm b' = bk_qm b \<or> (\<exists>q w. dequeue q w (bk_qm b) = (None, bk_qm b'))"
    using run by (auto simp: handle_consume_def split: if_splits json.splits prod.splits option.splits)
  moreover from this(2) have "qm_ok (bk_qm b') \<and> live (bk_qm b') = live (bk_qm b)"
    using qm_ok_ops(3) [OF core_sel(2) [OF core]] live_dequeue_None [OF core_sel(2) [OF core]] core_sel(2) [OF core]
    by (metis snd_conv)
  ultimately show ?thesis using core by (intro together_same) simp_all
next
  case True
  then obtain q v qm where q: "jget m ''queue'' = JStr q" "truthy (JStr q)" and w: "truthy (jget m ''worker_id'')"
    and deq: "dequeue q (jget m ''worker_id'') (bk_qm b) = (Some v, qm)" by blast
  from live_dequeue_Some [OF core_sel(2) [OF core] deq] obtain n where
    v: "tv_attempts v = n + 1" and old: "(tv_task_id v, tv_queue_name v, tv_payload v, n) \<in> live (bk_qm b)"
    and live': "live qm = insert (tv_task_id v, tv_queue_name v, tv_payload v, n + 1) {x \<in> live (bk_qm b). fst x \<noteq> tv_task_id v}"
    by blast
  let ?new = "{(tv_task_id v, tv_queue_name v, tv_payload v, n + 1)}"
  have live: "live qm = revise {tv_task_id v} ?new (live (bk_qm b))"
    by (simp add: live' revise_def)
  have same: "strip ` ?new \<subseteq> strip ` live (bk_qm b)"
    using imageI [OF old, of strip] by simp
  obtain wid where wal: "bk_wal b' = Some (snd (update_task_status (env_time e) (tv_task_id v) ''in_flight''
      (Some (tv_attempts v)) wid ws)) \<or> isl r \<and> bk_wal b' = Some ws" and qm: "bk_qm b' = qm"
    using run q w deq core_sel(1) [OF core]
    by (fastforce simp: handle_consume_def Let_def with_wal_def split: json.splits)
  let ?ws = "snd (update_task_status (env_time e) (tv_task_id v) ''in_flight'' (Some (tv_attempts v)) wid ws)"
  have "stored ?ws = revise {tv_task_id v} ?new (stored ws)"
    using core_row [OF core old] stored_update [of "tv_task_id v" "tv_queue_name v" "tv_payload v"] v by auto
  moreover have "qm_ok qm" using qm_ok_ops(3) [OF core_sel(2) [OF core], of q "jget m ''worker_id''"] deq by simp
  ultimately show ?thesis
    using wal qm live same core_sel [OF core]
    by (intro togetherI [OF core, where ws' = ?ws and gone = "{tv_task_id v}" and new = ?new])
      (auto simp: ws_ok_update texts_ok_replace)
qed

lemma ack_together:
  assumes core: "core b ws" and run: "handle_ack e m b = (r, b')"
  shows "together b ws r b'"
proof (cases "\<exists>tid qm. jget m ''task_id'' = JStr tid \<and> truthy (JStr tid) \<and> acknowledge tid (bk_qm b) = (True, qm)")
  case False
  then have "bk_wal b' = bk_wal b" and "bk_qm b' = bk_qm b"
    using run by (auto simp: handle_ack_def split: if_splits json.splits prod.splits bool.splits dest: acknowledge_False)
  then show ?thesis using core by (intro together_same) (simp_all add: core_sel)
next
  case True
  then obtain tid qm where tid: "jget m ''task_id'' = JStr tid" "truthy (JStr tid)"
    and ack: "acknowledge tid (bk_qm b) = (True, qm)" by blast
  let ?ws = "snd (update_task_status (env_time e) tid ''done'' None None ws)"
  have qm: "bk_qm b' = qm" and ok: "qm_ok qm"
    and wal: "bk_wal b' = Some ?ws \<or> isl r \<and> bk_wal b' = Some ws"
    using run tid ack core_sel(1,2) [OF core] qm_ok_ops(4) [OF core_sel(2) [OF core], of tid]
    by (auto simp: handle_ack_def Let_def split: sum.splits json.splits)
  have live: "live qm = revise {tid} {} (live (bk_qm b))"
    using live_acknowledge(1) [OF core_sel(2) [OF core] ack] by (simp add: revise_def)
  obtain q p n where "(tid, q, p, n) \<in> stored ws"
    using live_acknowledge(2) [OF core_sel(2) [OF core] ack] core_row [OF core] by (auto, metis)
  then have "stored ?ws = revise {tid} {} (stored ws)"
    using stored_update by simp
  with wal qm ok live show ?thesis
    by (intro togetherI [OF core]) (simp_all add: ws_ok_update texts_ok_replace core_sel [OF core])
qed

lemma nack_together:
  assumes core: "core b ws" and run: "handle_nack e m b = (r, b')"
  shows "together b ws r b'"
proof (cases "\<exists>tid x qm. jget m ''task_id'' = JStr tid \<and> truthy (JStr tid) \<and>
    negative_acknowledge (env_time e) tid (bk_qm b) = (Some x, qm)")
  case False
  then have "bk_wal b' = bk_wal b" and "bk_qm b' = bk_qm b"
    using run by (auto simp: handle_nack_def split: if_splits json.splits prod.splits option.splits
        dest: negative_acknowledge_None)
  then show ?thesis using core by (intro together_same) (simp_all add: core_sel)
next
  case True
  then obtain tid x qm where tid: "jget m ''task_id'' = JStr tid" "truthy (JStr tid)"
    and nack: "negative_acknowledge (env_time e) tid (bk_qm b) = (Some x, qm)" by blast
  have ok: "qm_ok qm" using qm_ok_ops(5) [OF core_sel(2) [OF core], of "env_time e" tid] nack by simp
  from live_negative_acknowledge [OF core_sel(2) [OF core] nack] obtain t where
    t: "item t \<in> live (bk_qm b)" "task_id t = tid" and
    outcome: "x = Dead_lettered tid (attempts t) (queue_name t) \<and> live qm = revise {tid} {} (live (bk_qm b)) \<or>
      (\<exists>mx. x = Requeued tid (attempts t) mx (queue_name t)) \<and> live qm = live (bk_qm b)"
    by (auto simp: revise_def)
  from outcome show ?thesis
  proof (elim disjE conjE exE)
    assume x: "x = Dead_lettered tid (attempts t) (queue_name t)" and live: "live qm = revise {tid} {} (live (bk_qm b))"
    define stub where "stub = dlq_stub (env_time e) tid (queue_name t) (attempts t) (qm_dlq qm)"
    let ?ws = "add_to_dlq (env_time e) stub ''max retries exceeded'' ws"
    have "bk_qm b' = qm" and "bk_wal b' = Some ?ws \<or> isl r \<and> bk_wal b' = Some ws"
      using run tid nack x core_sel(1) [OF core]
      by (auto simp: handle_nack_def Let_def stub_def split: sum.splits)
    moreover have "task_id stub = tid" by (simp add: stub_def dlq_stub_def Let_def split: option.split)
    ultimately show ?thesis
      using ok live stored_add_to_dlq [of "env_time e" stub "''max retries exceeded''" ws]
      by (intro togetherI [OF core]) (simp_all add: ws_ok_add_to_dlq texts_ok_replace core_sel [OF core])
  next
    fix mx assume x: "x = Requeued tid (attempts t) mx (queue_name t)" and live: "live qm = live (bk_qm b)"
    let ?ws = "snd (update_task_status (env_time e) tid ''pending'' (Some (attempts t)) None ws)"
    have "bk_qm b' = qm" and wal: "bk_wal b' = Some ?ws \<or> isl r \<and> bk_wal b' = Some ws"
      using run tid nack x core_sel(1) [OF core] by (auto simp: handle_nack_def Let_def split: sum.splits)
    moreover obtain k where "(tid, queue_name t, payload t, k) \<in> stored ws"
      using core_row [OF core, of tid "queue_name t" "payload t" "attempts t"] t by (auto simp: item_def)
    then have "stored ?ws = revise {tid} {item t} (stored ws)"
      using stored_update [of tid "queue_name t" "payload t" k ws] t(2) by (simp add: item_def)
    moreover have "live qm = revise {tid} {item t} (live (bk_qm b))"
      using revise_same [OF core_sel(2) [OF core] t(1)] t(2) live by simp
    moreover have "strip ` {item t} \<subseteq> strip ` live (bk_qm b)" using t(1) by simp
    ultimately show ?thesis
      using ok
      by (intro togetherI [OF core, where gone = "{tid}" and new = "{item t}" and ws' = ?ws])
        (auto simp: ws_ok_update texts_ok_replace core_sel [OF core])
  qed
qed

lemma replay_together:
  assumes core: "core b ws" and fresh: "fresh_id (env_uuid e) b" and run: "handle_dlq_replay e m b = (r, b')"
  shows "together b ws r b'"
proof (cases "\<exists>tid row. jget m ''task_id'' = JStr tid \<and> truthy (JStr tid) \<and> dict_get (ws_dlq ws) tid = Some row")
  case False
  then have "bk_wal b' = bk_wal b" and "bk_qm b' = bk_qm b"
    using run core_sel(1) [OF core]
    by (auto simp: handle_dlq_replay_def replay_dlq_task_def split: if_splits json.splits option.splits)
  then show ?thesis using core by (intro together_same) (simp_all add: core_sel)
next
  case True
  then obtain tid row where tid: "jget m ''task_id'' = JStr tid" "truthy (JStr tid)"
    and row: "dict_get (ws_dlq ws) tid = Some row" by blast
  obtain p where p: "dr_payload row = Dumped p" using core_sel(4) [OF core] row unfolding texts_ok_def by metis
  let ?ws1 = "snd (replay_dlq_task tid ws)"
  have frame: "ws_tasks ?ws1 = ws_tasks ws" "dict_get (ws_dlq ?ws1) (env_uuid e) = None"
    using fresh core_sel(1) [OF core] by (auto simp: replay_dlq_task_def row fresh_id_def)
  let ?b1 = "b\<lparr>bk_wal := Some ?ws1\<rparr>"
  let ?b2 = "?b1\<lparr>bk_qm := snd (enqueue (env_uuid e) (env_time e) (dr_queue_name row) p (bk_qm b))\<rparr>"
  have "b' = persist_new (env_time e) (dr_queue_name row) (env_uuid e) ?b2"
    using run tid row p core_sel(1) [OF core]
    by (auto simp: handle_dlq_replay_def replay_dlq_task_def enqueue_eq Let_def)
  moreover have "together b ws r (persist_new (env_time e) (dr_queue_name row) (env_uuid e) ?b2)"
    using frame core_sel [OF core]
    by (intro enqueue_together [OF core fresh, where ?b1.0 = ?b1 and ?ws1.0 = ?ws1])
      (simp_all add: ws_ok_replay texts_ok_replace)
  ultimately show ?thesis by simp
qed

lemma purge_together:
  assumes core: "core b ws" and run: "handle_dlq_purge e m b = (r, b')"
  shows "together b ws r b'"
proof (cases "queue_filter (jget m ''queue'')")
  case None
  then show ?thesis using run core by (auto simp: handle_dlq_purge_def core_sel intro: together_same)
next
  case (Some f)
  then have "bk_qm b' = bk_qm b" and "bk_wal b' = Some (snd (purge_dlq f ws))"
    using run core_sel(1) [OF core] by (auto simp: handle_dlq_purge_def split: prod.splits)
  then show ?thesis
    using core_sel [OF core]
    by (intro togetherI [OF core, where ws' = "snd (purge_dlq f ws)" and gone = "{}" and new = "{}"])
      (simp_all add: ws_ok_purge texts_ok_purge)
qed

lemma readout_frame:
  "handle_register e m b = (r, b') \<Longrightarrow> bk_wal b' = bk_wal b \<and> bk_qm b' = bk_qm b"
  "handle_heartbeat e m b = (r, b') \<Longrightarrow> bk_wal b' = bk_wal b \<and> bk_qm b' = bk_qm b"
  "handle_dlq_list e m b = (r, b') \<Longrightarrow> bk_wal b' = bk_wal b \<and> bk_qm b' = bk_qm b"
  "handle_stats e m b = (r, b') \<Longrightarrow> bk_wal b' = bk_wal b \<and> bk_qm b' = bk_qm b"
  "handle_metrics e m b = (r, b') \<Longrightarrow> bk_wal b' = bk_wal b \<and> bk_qm b' = bk_qm b"
  by (auto simp: handle_register_def handle_heartbeat_def handle_dlq_list_def handle_stats_def
      handle_metrics_def get_metrics_snapshot_def Let_def
      split: if_splits json.splits option.splits prod.splits)

lemma readout_together:
  assumes "core b ws"
    and "h \<in> {handle_register, handle_heartbeat, handle_dlq_list, handle_stats, handle_metrics}"
    and "h e m b = (r, b')"
  shows "together b ws r b'"
proof -
  have "bk_wal b' = bk_wal b \<and> bk_qm b' = bk_qm b"
    using assms(2,3) by (auto dest: readout_frame)
  then show ?thesis using assms(1) by (intro together_same) (simp_all add: core_sel)
qed

lemma dispatch_together:
  assumes "core b ws" and "fresh_id (env_uuid e) b" and "dispatch e msg b = (r, b')"
  shows "together b ws r b'"
proof (cases "\<exists>m c h. msg = JDict m \<and> truthy (jget m ''command'') \<and> jget m ''command'' = JStr c \<and> dict_get handlers c = Some h")
  case False
  then have "b' = b" using assms(3)
    by (auto simp: dispatch_def split: json.splits if_splits option.splits)
  then show ?thesis using assms(1) by (auto simp: core_sel intro: together_same)
next
  case True
  then obtain m c h where h: "dict_get handlers c = Some h" and run: "h e m b = (r, b')"
    using assms(3) by (auto simp: dispatch_def)
  have "h \<in> {handle_produce, handle_consume, handle_register, handle_heartbeat, handle_ack, handle_nack,
             handle_dlq_list, handle_dlq_replay, handle_dlq_purge, handle_stats, handle_metrics}"
    using dict_get_in [OF h] by (auto simp: handlers_def)
  then show ?thesis
    using run readout_together [OF assms(1), of h e m r b']
    by (auto dest: produce_together [OF assms(1,2)] consume_together [OF assms(1)] ack_together [OF assms(1)]
        nack_together [OF assms(1)] replay_together [OF assms(1,2)] purge_together [OF assms(1)])
qed

text \<open>Eviction leaves the unfinished tasks as they are.\<close>

lemma requeue_tasks_live:
  "qm_ok qm \<Longrightarrow> requeue_tasks requeue_by_id tids (n, qm) = (n', qm') \<Longrightarrow> qm_ok qm' \<and> live qm' = live qm"
proof (induction tids arbitrary: n qm)
  case Nil
  then show ?case by simp
next
  case (Cons tid tids)
  obtain b qm1 where r: "requeue_by_id tid qm = (b, qm1)" by fastforce
  have "qm_ok qm1" and "live qm1 = live qm"
    using qm_ok_ops(6) [OF Cons.prems(1), of tid] live_requeue_by_id [OF Cons.prems(1), of tid] r by simp_all
  with Cons.IH [of qm1] Cons.prems(2) r show ?case by simp
qed

lemma evict_each_live:
  "qm_ok qm \<Longrightarrow> evict_each (Some requeue_by_id) ord ws (n, e, qm) = (n', e', qm') \<Longrightarrow>
     qm_ok qm' \<and> live qm' = live qm"
proof (induction ws arbitrary: n e qm)
  case Nil
  then show ?case by simp
next
  case (Cons w ws)
  obtain wid wi where w: "w = (wid, wi)" by fastforce
  obtain n1 qm1 where r: "requeue_tasks requeue_by_id (ord (wi_in_flight_tasks wi)) (n, qm) = (n1, qm1)"
    by fastforce
  from requeue_tasks_live [OF Cons.prems(1) r] Cons.IH [of qm1 n1 "Suc e"] Cons.prems(2) w r
  show ?case by simp
qed

lemma evict_tick_frame:
  "qm_ok (bk_qm b) \<Longrightarrow>
     bk_wal (evict_tick ord now b) = bk_wal b \<and> qm_ok (bk_qm (evict_tick ord now b)) \<and>
     live (bk_qm (evict_tick ord now b)) = live (bk_qm b)"
  by (auto simp: evict_tick_def evict_dead_workers_def Let_def split: prod.splits dest: evict_each_live)

section \<open>Recovery\<close>

lemma live_init [simp]: "live (qm_init r) = {}"
  by (simp add: live_def work_def pending_def qm_init_def)

definition row_ok :: "string \<times> task_row \<Rightarrow> wal_store \<Rightarrow> bool" where
  "row_ok row ws \<longleftrightarrow>
     dict_get (ws_tasks ws) (fst row) = Some (snd row) \<and> recoverable (snd row) \<and>
     (\<exists>p. tr_payload (snd row) = Dumped p) \<and> 0 \<le> tr_attempts (snd row)"

definition items_of :: "(string \<times> task_row) list \<Rightarrow> work_item set" where
  "items_of rows = {(tid, x). \<exists>r. (tid, r) \<in> set rows \<and> row_item r = Some x}"

lemma row_item_ok:
  "row_ok (tid, r) ws \<Longrightarrow> \<exists>p. tr_payload r = Dumped p \<and> row_item r = Some (tr_queue_name r, p, tr_attempts r)"
  by (auto simp: row_ok_def row_item_def)

lemma pool_queue_of_recovered:
  "queue_of (snd (enqueue_recovered now q tid p n qm)) q' =
     (if q' = q then queue_of qm q @ [(new_task tid q p now)\<lparr>attempts := n\<rparr>] else queue_of qm q')"
  by (simp add: enqueue_recovered_eq)

lemma recover_rows_ok:
  assumes "distinct (map fst rows)" and "\<forall>row \<in> set rows. row_ok row ws" and "ws_ok ws" and "texts_ok ws"
    and "qm_ok qm" and "\<forall>tid \<in> fst ` set rows. tid \<notin># qm_pool qm"
  shows "\<exists>qm' ws'. recover_rows now rows (qm, ws) = (Inr (length rows), qm', ws') \<and>
     qm_ok qm' \<and> ws_ok ws' \<and> texts_ok ws' \<and> stored ws' = stored ws \<and>
     live qm' = live qm \<union> items_of rows \<and> qm_in_flight qm' = qm_in_flight qm \<and>
     (\<forall>q. map task_id (queue_of qm' q) =
        map task_id (queue_of qm q) @ map fst (filter (\<lambda>(_, r). tr_queue_name r = q) rows))"
  using assms
proof (induction rows arbitrary: qm ws)
  case Nil
  then show ?case by (simp add: items_of_def)
next
  case (Cons row rows)
  obtain tid r where row: "row = (tid, r)" by fastforce
  have row_ok: "row_ok (tid, r) ws" using Cons.prems(2) row by simp
  obtain p where p: "tr_payload r = Dumped p" and item: "row_item r = Some (tr_queue_name r, p, tr_attempts r)"
    using row_item_ok [OF row_ok] by blast
  let ?qm = "snd (enqueue_recovered now (tr_queue_name r) tid p (tr_attempts r) qm)"
  let ?ws = "snd (update_task_status now tid ''pending'' (Some (tr_attempts r)) None ws)"
  have "(tid, tr_queue_name r, p, tr_attempts r) \<in> stored ws"
    using row_ok item by (simp add: stored_def row_ok_def)
  from stored_update [OF this, of now "''pending''" "Some (tr_attempts r)" None] this
  have st: "stored ?ws = stored ws" by (auto simp: revise_def stored_def)
  have qm: "qm_ok ?qm"
    using Cons.prems(5,6) row row_ok by (intro qm_ok_ops(2)) (auto simp: row_ok_def)
  have fresh: "\<forall>k \<in> fst ` set rows. k \<notin># qm_pool ?qm"
    using Cons.prems(1,6) row by (auto simp: image_iff)
  have rows: "\<forall>row \<in> set rows. row_ok row ?ws"
  proof
    fix row' assume "row' \<in> set rows"
    then have "fst row' \<noteq> tid" and "row_ok row' ws"
      using Cons.prems(1,2) row by (auto simp: image_iff)
    then show "row_ok row' ?ws"
      by (auto simp: row_ok_def update_task_status_def Let_def split: option.split)
  qed
  from Cons.IH [OF _ rows ws_ok_update [OF Cons.prems(3)] texts_ok_replace(3) [OF Cons.prems(4)] qm fresh] Cons.prems(1)
  obtain qm' ws' where IH: "recover_rows now rows (?qm, ?ws) = (Inr (length rows), qm', ws')"
    "qm_ok qm'" "ws_ok ws'" "texts_ok ws'" "stored ws' = stored ?ws"
    "live qm' = live ?qm \<union> items_of rows" "qm_in_flight qm' = qm_in_flight ?qm"
    "\<forall>q. map task_id (queue_of qm' q) =
       map task_id (queue_of ?qm q) @ map fst (filter (\<lambda>(_, r). tr_queue_name r = q) rows)"
    by auto
  have "items_of (row # rows) = insert (tid, tr_queue_name r, p, tr_attempts r) (items_of rows)"
    using item row by (auto simp: items_of_def)
  then have "live qm' = live qm \<union> items_of (row # rows)"
    using IH(6) by (simp add: live_enqueue_recovered)
  moreover have "qm_in_flight qm' = qm_in_flight qm" using IH(7) by (simp add: enqueue_recovered_eq)
  moreover have "recover_rows now (row # rows) (qm, ws) = (Inr (length (row # rows)), qm', ws')"
    using IH(1) by (simp add: row p)
  moreover have "map task_id (queue_of qm' q) =
      map task_id (queue_of qm q) @ map fst (filter (\<lambda>(_, r). tr_queue_name r = q) (row # rows))" for q
    using IH(8) by (simp add: row pool_queue_of_recovered)
  ultimately show ?case using IH(2-5) st by metis
qed

lemma live_attempts: "qm_ok qm \<Longrightarrow> (tid, q, p, n) \<in> live qm \<Longrightarrow> 0 \<le> n"
  using qm_wf_pending [of qm]
  by (auto simp: live_def work_def item_def qm_ok_def qm_wf_def task_ok_defs pending_def)

lemma load_pending_rows:
  assumes "ws_ok ws"
  shows "distinct (map fst (load_pending_tasks ws))"
    and "(tid, r) \<in> set (load_pending_tasks ws) \<longleftrightarrow> dict_get (ws_tasks ws) tid = Some r \<and> recoverable r"
    and "sorted (map (\<lambda>(_, r). tr_created_at r) (load_pending_tasks ws))"
proof -
  have ok: "dict_ok (ws_tasks ws)" using assms by (simp add: ws_ok_def)
  have "mset (map fst (load_pending_tasks ws)) = mset (map fst (filter (\<lambda>(_, r). recoverable r) (ws_tasks ws)))"
    unfolding load_pending_tasks_def mset_map by simp
  moreover have "distinct (map fst (filter (\<lambda>(_, r). recoverable r) (ws_tasks ws)))"
    using dict_ok_filter [OF ok] by (simp add: dict_ok_def)
  ultimately show "distinct (map fst (load_pending_tasks ws))" by (metis mset_eq_imp_distinct_iff)
  show "(tid, r) \<in> set (load_pending_tasks ws) \<longleftrightarrow> dict_get (ws_tasks ws) tid = Some r \<and> recoverable r"
    using dict_get_content [OF ok, of tid r] by (auto simp: load_pending_tasks_def)
  show "sorted (map (\<lambda>(_, r). tr_created_at r) (load_pending_tasks ws))"
    unfolding load_pending_tasks_def by (rule sorted_sort_key)
qed

lemma items_of_pending: "ws_ok ws \<Longrightarrow> items_of (load_pending_tasks ws) = stored ws"
  by (auto simp: items_of_def stored_def load_pending_rows row_item_def bind_eq_Some_conv split: if_splits)

lemma card_items:
  assumes "distinct (map fst rows)" and "\<forall>row \<in> set rows. row_item (snd row) \<noteq> None"
  shows "card (items_of rows) = length rows"
proof -
  have "items_of rows = (\<lambda>(tid, r). (tid, the (row_item r))) ` set rows"
    using assms(2) by (force simp: items_of_def image_iff)
  moreover have "inj_on (\<lambda>(tid, r). (tid, the (row_item r))) (set rows)"
    using assms(1) by (auto simp: inj_on_def dest: eq_key_imp_eq_value)
  moreover have "card (set rows) = length rows"
    using assms(1) by (simp add: distinct_card distinct_map)
  ultimately show ?thesis by (simp add: card_image)
qed

lemma pending_rows_ok:
  assumes "ws_ok ws" and "texts_ok ws" and "counts_ok ws"
  shows "\<forall>row \<in> set (load_pending_tasks ws). row_ok row ws"
proof
  fix row assume row: "row \<in> set (load_pending_tasks ws)"
  obtain tid r where tr: "row = (tid, r)" by fastforce
  with row have r: "dict_get (ws_tasks ws) tid = Some r" "recoverable r"
    using load_pending_rows(2) [OF assms(1)] by simp_all
  then obtain p where p: "tr_payload r = Dumped p" using assms(2) unfolding texts_ok_def by blast
  then have "(tid, tr_queue_name r, p, tr_attempts r) \<in> stored ws"
    using r by (simp add: stored_def row_item_def)
  then show "row_ok row ws" using assms(3) r p tr by (auto simp: row_ok_def counts_ok_def)
qed

text \<open>Reopening the database file leaves the rows as they are.\<close>

lemma reopen_frame [simp]:
  "ws_tasks (init_db path (Some ws)) = ws_tasks ws" "ws_dlq (init_db path (Some ws)) = ws_dlq ws"
  "load_pending_tasks (init_db path (Some ws)) = load_pending_tasks ws"
  "stored (init_db path (Some ws)) = stored ws" "texts_ok (init_db path (Some ws)) = texts_ok ws"
  "counts_ok (init_db path (Some ws)) = counts_ok ws"
  by (simp_all add: init_db_def load_pending_tasks_def stored_def texts_ok_def counts_ok_def)

text \<open>A new broker on the rows of an old one.\<close>

lemma start_recovers:
  assumes ws: "ws_ok ws" "texts_ok ws" "counts_ok ws"
  shows "\<exists>b'. bk_start now (bk_init mnow (Some (init_db path (Some ws)))) = (Inr (card (stored ws)), b') \<and>
           (\<exists>ws'. core b' ws' \<and> stored ws' = stored ws) \<and>
           live (bk_qm b') = stored ws \<and> qm_in_flight (bk_qm b') = [] \<and>
           (\<forall>q. map task_id (queue_of (bk_qm b') q) =
              map fst (filter (\<lambda>(_, r). tr_queue_name r = q) (load_pending_tasks ws)))"
proof -
  let ?ws = "init_db path (Some ws)" and ?rows = "load_pending_tasks ws"
  have ws1: "ws_ok ?ws" "texts_ok ?ws" "counts_ok ?ws" using ws by (simp_all add: ws_ok_init_db)
  have rows: "\<forall>row \<in> set ?rows. row_ok row ?ws" using pending_rows_ok [OF ws1] by simp
  then have "\<forall>row \<in> set ?rows. row_item (snd row) \<noteq> None" by (auto simp: row_ok_def row_item_def)
  from card_items [OF load_pending_rows(1) [OF ws(1)] this] have card: "length ?rows = card (stored ws)"
    by (simp add: items_of_pending [OF ws(1)])
  obtain qm' ws' where rec: "recover_rows now ?rows (qm_init 3, ?ws) = (Inr (length ?rows), qm', ws')"
    "qm_ok qm'" "ws_ok ws'" "texts_ok ws'" "stored ws' = stored ws"
    "live qm' = live (qm_init 3) \<union> items_of ?rows" "qm_in_flight qm' = qm_in_flight (qm_init 3)"
    "\<forall>q. map task_id (queue_of qm' q) =
       map task_id (queue_of (qm_init 3) q) @ map fst (filter (\<lambda>(_, r). tr_queue_name r = q) ?rows)"
    using recover_rows_ok [OF load_pending_rows(1) [OF ws(1)] rows ws1(1,2) qm_ok_init [of 3], of now] by auto
  let ?b0 = "bk_init mnow (Some ?ws)"
  let ?b' = "?b0\<lparr>bk_qm := qm', bk_wal := Some ws', bk_server := True,
                 bk_wr := (bk_wr ?b0)\<lparr>wr_eviction_task := True\<rparr>\<rparr>"
  have "bk_start now ?b0 = (Inr (card (stored ws)), ?b')"
    using rec(1) card by (simp add: bk_start_def bk_init_def)
  moreover have live: "live (bk_qm ?b') = stored ws"
    using rec(6) by (simp add: items_of_pending [OF ws(1)])
  moreover have "core ?b' ws'"
    using rec(2-5) live ws(3) by (simp add: core_def counts_ok_def)
  moreover have "qm_in_flight (bk_qm ?b') = []" using rec(7) by (simp add: qm_init_def)
  ultimately show ?thesis using rec(5,8) by (intro exI [of _ ?b']) auto
qed

section \<open>Runs of the broker\<close>

text \<open>A command from a client, with a fresh identifier at hand; a wake-up of the eviction loop; the
  dashboard's reset and crash-worker actions; and a crash followed by a restart on the same
  database file. Messages with a field of a type the model does not follow are left out. The
  flag says whether some command has raised since the last start.\<close>

inductive broker_step :: "broker \<times> bool \<Rightarrow> broker \<times> bool \<Rightarrow> bool" where
  Command: "fresh_id (env_uuid e) b \<Longrightarrow> dispatch e msg b = (r, b') \<Longrightarrow> (\<And>f. r \<noteq> Inl (IllTyped f)) \<Longrightarrow>
     broker_step (b, raised) (b', raised \<or> isl r)"
| Tick: "broker_step (b, raised) (evict_tick ord now b, raised)"
| Reset: "broker_step (b, raised) (snd (reset_handler e b), raised)"
| Crash_worker: "broker_step (b, raised) (snd (crash_worker_handler pick e b), raised)"
| Restart: "bk_wal b = Some ws \<Longrightarrow>
     bk_start now (bk_init mnow (Some (init_db path (Some ws)))) = (Inr n, b') \<Longrightarrow>
     broker_step (b, raised) (b', False)"

definition durable :: "broker \<times> bool \<Rightarrow> bool" where
  "durable s \<longleftrightarrow>
     (\<exists>ws. core (fst s) ws \<and> (\<not> snd s \<longrightarrow> live (bk_qm (fst s)) = stored ws))"

lemma together_durable:
  assumes core: "core b ws" and same: "\<not> raised \<longrightarrow> live (bk_qm b) = stored ws" and out: "together b ws r b'"
  shows "durable (b', raised \<or> isl r)"
proof -
  from out obtain ws' gone new where
    ok: "bk_wal b' = Some ws'" "qm_ok (bk_qm b')" "ws_ok ws'" "texts_ok ws'"
    and outcome: "live (bk_qm b') = revise gone new (live (bk_qm b)) \<and> stored ws' = revise gone new (stored ws) \<or>
         isl r \<and> strip ` live (bk_qm b') \<subseteq> strip ` live (bk_qm b) \<and> stored ws' = stored ws"
    unfolding together_def by blast
  have sub: "strip ` live (bk_qm b) \<subseteq> strip ` stored ws" and counts: "counts_ok ws"
    using core by (simp_all add: core_def)
  show ?thesis
    using outcome
  proof
    assume both: "live (bk_qm b') = revise gone new (live (bk_qm b)) \<and> stored ws' = revise gone new (stored ws)"
    then have "strip ` live (bk_qm b') \<subseteq> strip ` stored ws'" using revise_mono [OF sub] by simp
    moreover have "new \<subseteq> live (bk_qm b')" using both by (simp add: revise_def)
    then have "0 \<le> n" if "(tid, q, p, n) \<in> new" for tid q p n
      using live_attempts [OF ok(2)] that by blast
    then have "counts_ok ws'" using both counts by (auto simp: counts_ok_def revise_def)
    moreover have "\<not> raised \<longrightarrow> live (bk_qm b') = stored ws'" using both same by simp
    ultimately show ?thesis using ok by (auto simp: durable_def core_def)
  next
    assume "isl r \<and> strip ` live (bk_qm b') \<subseteq> strip ` live (bk_qm b) \<and> stored ws' = stored ws"
    then show ?thesis using ok sub counts by (fastforce simp: durable_def core_def counts_ok_def)
  qed
qed

lemma reset_durable:
  assumes "core b ws"
  shows "durable (snd (reset_handler e b), raised)"
proof -
  let ?b = "snd (reset_handler e b)"
  have "bk_wal ?b = Some (clear_all_data ws)" and qm: "bk_qm ?b = qm_reset (bk_qm b)"
    using assms by (simp_all add: core_def reset_handler_def with_wal_def)
  moreover have "qm_ok (bk_qm ?b)" using assms qm qm_ok_reset [of "bk_qm b"] by (simp add: core_def qm_ok_def)
  moreover have "live (bk_qm ?b) = {}" unfolding qm by (simp add: live_def work_def qm_reset_def pending_def)
  moreover have "stored (clear_all_data ws) = {}" by (simp add: stored_def clear_all_data_def)
  ultimately show ?thesis
    using ws_ok_clear [of ws] by (simp add: durable_def core_def texts_ok_def counts_ok_def clear_all_data_def)
qed

lemma crash_worker_frame:
  "bk_qm (snd (crash_worker_handler pick e b)) = bk_qm b \<and> bk_wal (snd (crash_worker_handler pick e b)) = bk_wal b"
  by (simp add: crash_worker_handler_def Let_def)

lemma durable_step:
  assumes "durable s" and "broker_step s s'"
  shows "durable s'"
  using assms(2)
proof cases
  case (Command e b msg r b' raised)
  obtain ws where "core b ws" and "\<not> raised \<longrightarrow> live (bk_qm b) = stored ws"
    using assms(1) Command by (auto simp: durable_def)
  with Command show ?thesis using dispatch_together [of b ws e msg r b'] by (simp add: together_durable)
next
  case (Tick b raised ord now)
  then show ?thesis
    using assms(1) evict_tick_frame [of b ord now] by (auto simp: durable_def core_def)
next
  case (Reset b raised e)
  then obtain ws where "core b ws" using assms(1) by (auto simp: durable_def)
  then show ?thesis using Reset reset_durable by simp
next
  case (Crash_worker b raised pick e)
  then show ?thesis using assms(1) crash_worker_frame [of pick e b] by (simp add: durable_def core_def)
next
  case (Restart b ws now mnow path n b' raised)
  then have "core b ws" using assms(1) by (auto simp: durable_def core_def)
  then have "ws_ok ws" "texts_ok ws" "counts_ok ws" by (simp_all add: core_def)
  from start_recovers [OF this, of now mnow path] Restart show ?thesis by (auto simp: durable_def)
qed

definition fresh_broker :: "broker \<times> bool \<Rightarrow> bool" where
  "fresh_broker s \<longleftrightarrow> (\<exists>mnow path. s = (bk_init mnow (Some (init_db path None)), False))"

lemma durable_init: "fresh_broker s \<Longrightarrow> durable s"
  by (auto simp: fresh_broker_def durable_def core_def bk_init_def init_db_def ws_ok_def texts_ok_def
      counts_ok_def stored_def)

interpretation broker: inductive_invariant fresh_broker broker_step durable
  by unfold_locales (auto intro: durable_init durable_step)

section \<open>Properties\<close>

text \<open>
  C2. No unfinished task is only in memory. Take any state a broker with a database reaches from an
  empty one by client messages (valid or malformed; those with a number where a name is expected
  are outside the model), eviction passes, the dashboard's reset and crash-worker actions, and
  crashes with a restart on the same file, with unused identifiers drawn for new tasks. Then every
  pending or in-flight task has an unfinished row with its identifier, queue and payload; and
  as long as no command has raised since the last start, the unfinished rows are exactly those
  tasks, attempt counts included. The dashboard's replay of the whole dead letter queue is not
  among these steps: it breaks the property.
\<close>

theorem durability_invariant:
  assumes "reach fresh_broker broker_step (b, raised)"
  shows "\<exists>ws. bk_wal b = Some ws \<and> strip ` live (bk_qm b) \<subseteq> strip ` stored ws \<and>
           (raised \<or> live (bk_qm b) = stored ws)"
  using broker.reach_inv [OF assms] by (auto simp: durable_def core_def)

definition sample_env :: call_env where
  "sample_env = \<lparr>env_time = 0, env_monotonic = 0, env_uuid = ''t1'', env_peer = (''h'', 1), env_conn = None\<rparr>"

definition sample_produce :: json where
  "sample_produce = JDict [(''command'', JStr ''PRODUCE''), (''queue'', JStr ''q''), (''task'', JInt 7)]"

lemma sample_reach:
  "reach fresh_broker broker_step
     (snd (dispatch sample_env sample_produce (bk_init 0 (Some (init_db ''db'' None)))), False)"
proof -
  let ?b = "bk_init 0 (Some (init_db ''db'' None))"
  have init: "reach fresh_broker broker_step (?b, False)"
    by (rule reach_init) (auto simp: fresh_broker_def)
  have "fresh_id (env_uuid sample_env) ?b"
    by (simp add: fresh_id_def bk_init_def init_db_def)
  moreover obtain r b' where run: "dispatch sample_env sample_produce ?b = (r, b')" by fastforce
  moreover have ok: "\<not> isl r"
    using run by (auto simp: dispatch_def sample_produce_def handlers_def handle_produce_def dict_get_or_def
        Let_def split: prod.splits if_splits)
  moreover have "r \<noteq> Inl (IllTyped f)" for f using ok by auto
  ultimately have "broker_step (?b, False) (b', False \<or> isl r)" by (intro broker_step.Command)
  then show ?thesis using reach_step [OF init, of "(b', False)"] run ok by simp
qed

lemma sample_live:
  "live (bk_qm (snd (dispatch sample_env sample_produce (bk_init 0 (Some (init_db ''db'' None)))))) =
     {(''t1'', ''q'', JInt 7, 0)}"
  by (simp add: dispatch_def sample_produce_def handlers_def handle_produce_def dict_get_or_def Let_def
      check_and_consume_eq bucket_at_def new_bucket_def bk_init_def ls_init_def persist_new_def enqueue_eq
      sample_env_def compute_adjusted_rate_def depth_factor_def latency_factor_def
      queue_depth_def average_latency_ms_def wr_init_def)
    (simp add: live_def work_def item_def qm_init_def pending_def put_queue_def)

theorem durability_invariant_witness:
  "\<exists>ws. bk_wal (snd (dispatch sample_env sample_produce (bk_init 0 (Some (init_db ''db'' None))))) = Some ws \<and>
     (''t1'', ''q'', JInt 7, 0) \<in> stored ws"
  using durability_invariant [OF sample_reach] sample_live by auto

text \<open>
  C3. Crash recovery. Let a broker with a database crash between two commands, in any state it
  reaches by the steps of the previous property (earlier crashes and raised commands included, the
  dashboard's replay-all excluded). A new broker started on the same database file raises
  nothing, recovers as many tasks as there are unfinished rows and ends with exactly the tasks of
  those rows, all of them pending. Every task that was pending or in flight is among them with its
  identifier, queue and payload; and if no command had raised since the last start, the
  recovered tasks are exactly the old ones, attempt counts included. Each queue holds its tasks in
  the order of the rows' creation times.
\<close>

theorem crash_recovery:
  assumes "reach fresh_broker broker_step (b, raised)" and "bk_wal b = Some ws"
  shows "\<exists>b'. bk_start now (bk_init mnow (Some (init_db path (Some ws)))) = (Inr (card (stored ws)), b') \<and>
           live (bk_qm b') = stored ws \<and> qm_in_flight (bk_qm b') = [] \<and>
           strip ` live (bk_qm b) \<subseteq> strip ` live (bk_qm b') \<and>
           (raised \<or> live (bk_qm b') = live (bk_qm b)) \<and>
           (\<forall>q. map task_id (queue_of (bk_qm b') q) =
              map fst (filter (\<lambda>(_, r). tr_queue_name r = q) (load_pending_tasks ws))) \<and>
           sorted (map (\<lambda>(_, r). tr_created_at r) (load_pending_tasks ws))"
proof -
  have core: "core b ws" and same: "raised \<or> live (bk_qm b) = stored ws"
    using broker.reach_inv [OF assms(1)] assms(2) by (auto simp: durable_def core_def)
  then have ws: "ws_ok ws" "texts_ok ws" "counts_ok ws"
    and sub: "strip ` live (bk_qm b) \<subseteq> strip ` stored ws" by (simp_all add: core_def)
  obtain b' where
    "bk_start now (bk_init mnow (Some (init_db path (Some ws)))) = (Inr (card (stored ws)), b')"
    "live (bk_qm b') = stored ws" "qm_in_flight (bk_qm b') = []"
    "\<forall>q. map task_id (queue_of (bk_qm b') q) =
       map fst (filter (\<lambda>(_, r). tr_queue_name r = q) (load_pending_tasks ws))"
    using start_recovers [OF ws, of now mnow path] by blast
  then show ?thesis using sub same load_pending_rows(3) [OF ws(1)] by (intro exI [of _ b']) auto
qed

theorem crash_recovery_witness:
  "\<exists>ws b'. bk_wal (snd (dispatch sample_env sample_produce (bk_init 0 (Some (init_db ''db'' None))))) = Some ws \<and>
     bk_start 9 (bk_init 8 (Some (init_db ''db'' (Some ws)))) = (Inr 1, b') \<and>
     live (bk_qm b') = {(''t1'', ''q'', JInt 7, 0)}"
proof -
  let ?b = "snd (dispatch sample_env sample_produce (bk_init 0 (Some (init_db ''db'' None))))"
  obtain ws where ws: "bk_wal ?b = Some ws"
    using broker.reach_inv [OF sample_reach] by (auto simp: durable_def core_def)
  from crash_recovery [OF sample_reach ws, of 9 8 "''db''"] sample_live ws show ?thesis by force
qed

end
