(* ===== verification/Wire_Protocol.thy ===== *)
theory Wire_Protocol
  imports Prelude "HOL-Library.Word"
begin

text \<open>
  The framing both ends of a connection use (\<open>_send_response\<close> and \<open>handle_connection\<close> of
  \<open>broker/server.py\<close>, \<open>_send\<close> of \<open>producer/client.py\<close> and \<open>worker/base_worker.py\<close>): a
  four-byte big-endian length followed by that many bytes. A byte is an \<open>8 word\<close>. The theorem is
  the round trip of a stream of frames from the broker's writer to a client's reader, which
  reads whatever length the prefix gives. (The broker's own reader refuses frames above
  10 MiB; it is in theory \<open>Connection\<close>.)
\<close>

type_synonym byte = "8 word"

text \<open>\<open>n.to_bytes(4, "big")\<close> and \<open>int.from_bytes(bs, "big")\<close>.\<close>

definition to_bytes4 :: "nat \<Rightarrow> exn + byte list" where
  "to_bytes4 n =
     (if n < 2 ^ 32
      then Inr [of_nat (n div 2 ^ 24), of_nat (n div 2 ^ 16), of_nat (n div 2 ^ 8), of_nat n]
      else Inl OverflowError)"

definition from_bytes :: "byte list \<Rightarrow> nat" where
  "from_bytes bs = foldl (\<lambda>acc b. acc * 256 + unat b) 0 bs"

text \<open>\<open>length_prefix + encoded\<close>.\<close>

definition frame :: "byte list \<Rightarrow> exn + byte list" where
  "frame encoded =
     (case to_bytes4 (length encoded) of
        Inl x \<Rightarrow> Inl x
      | Inr length_prefix \<Rightarrow> Inr (length_prefix @ encoded))"

text \<open>\<open>reader.readexactly(n)\<close> on a stream that ends after the given bytes; \<open>None\<close> is
  \<open>IncompleteReadError\<close>.\<close>

definition read_exactly :: "nat \<Rightarrow> byte list \<Rightarrow> (byte list \<times> byte list) option" where
  "read_exactly n bs = (if n \<le> length bs then Some (take n bs, drop n bs) else None)"

text \<open>A client reading a response.\<close>

definition read_frame :: "byte list \<Rightarrow> (byte list \<times> byte list) option" where
  "read_frame bs =
     (case read_exactly 4 bs of
        None \<Rightarrow> None
      | Some (raw_len, rest) \<Rightarrow> read_exactly (from_bytes raw_len) rest)"

fun read_frames :: "nat \<Rightarrow> byte list \<Rightarrow> (byte list list \<times> byte list) option" where
  "read_frames 0 bs = Some ([], bs)"
| "read_frames (Suc n) bs =
     (case read_frame bs of
        None \<Rightarrow> None
      | Some (m, rest) \<Rightarrow>
          (case read_frames n rest of None \<Rightarrow> None | Some (ms, rest') \<Rightarrow> Some (m # ms, rest')))"

section \<open>Length prefix\<close>

lemma unat_byte: "unat (of_nat n :: byte) = n mod 256"
  by (simp add: unat_of_nat)

lemma base256:
  fixes n :: nat
  assumes "n < 2 ^ 32"
  shows "(((n div 2 ^ 24 mod 256) * 256 + n div 2 ^ 16 mod 256) * 256 + n div 2 ^ 8 mod 256) * 256 + n mod 256 = n"
proof -
  have split: "m div 256 * 256 + m mod 256 = m" for m :: nat by (rule div_mult_mod_eq)
  have "n div 2 ^ 16 div 256 = n div 2 ^ 24" and "n div 2 ^ 8 div 256 = n div 2 ^ 16"
    by (simp_all flip: div_mult2_eq)
  moreover have "n div 2 ^ 24 mod 256 = n div 2 ^ 24" using assms by (simp add: less_mult_imp_div_less)
  ultimately show ?thesis
    using split [of "n div 2 ^ 16"] split [of "n div 2 ^ 8"] split [of n] by simp
qed

lemma from_to_bytes: "to_bytes4 n = Inr bs \<Longrightarrow> length bs = 4 \<and> from_bytes bs = n"
  using base256 [of n] by (auto simp: to_bytes4_def from_bytes_def unat_byte split: if_splits)

lemma read_frame_append:
  assumes "frame m = Inr bs"
  shows "read_frame (bs @ rest) = Some (m, rest)"
proof -
  obtain pre where pre: "to_bytes4 (length m) = Inr pre" and bs: "bs = pre @ m"
    using assms by (auto simp: frame_def split: sum.splits)
  with from_to_bytes [OF pre] show ?thesis by (simp add: read_frame_def read_exactly_def)
qed

lemma frame_ok: "length m < 2 ^ 32 \<Longrightarrow> \<exists>bs. frame m = Inr bs \<and> length bs = 4 + length m"
  by (simp add: frame_def to_bytes4_def)

lemma frame_prefix:
  assumes "frame m = Inr bs"
  shows "map unat (take 4 bs) = [length m div 2 ^ 24, length m div 2 ^ 16 mod 256, length m div 2 ^ 8 mod 256, length m mod 256]"
    and "drop 4 bs = m"
proof -
  have "length m < 2 ^ 32" and bs: "bs = [of_nat (length m div 2 ^ 24), of_nat (length m div 2 ^ 16),
      of_nat (length m div 2 ^ 8), of_nat (length m)] @ m"
    using assms by (auto simp: frame_def to_bytes4_def split: if_splits)
  then have "length m div 2 ^ 24 < 256" by (simp add: less_mult_imp_div_less)
  then show "map unat (take 4 bs) = [length m div 2 ^ 24, length m div 2 ^ 16 mod 256, length m div 2 ^ 8 mod 256, length m mod 256]"
    by (simp add: bs unat_byte)
  show "drop 4 bs = m" by (simp add: bs)
qed

text \<open>The bytes of several frames one after the other.\<close>

fun frames :: "byte list list \<Rightarrow> exn + byte list" where
  "frames [] = Inr []"
| "frames (m # ms) =
     (case frame m of
        Inl x \<Rightarrow> Inl x
      | Inr bs \<Rightarrow> (case frames ms of Inl x \<Rightarrow> Inl x | Inr cs \<Rightarrow> Inr (bs @ cs)))"

lemma read_frames_append: "frames ms = Inr bs \<Longrightarrow> read_frames (length ms) (bs @ rest) = Some (ms, rest)"
proof (induction ms arbitrary: bs)
  case (Cons m ms)
  then obtain b cs where "frame m = Inr b" and "frames ms = Inr cs" and "bs = b @ cs"
    by (auto split: sum.splits)
  with Cons.IH show ?case by (simp add: read_frame_append)
qed simp

section \<open>Properties\<close>

text \<open>
  C20. Framing round trip. The responses the broker writes one after the other, each shorter than
  4 GiB, are read by a client as the same byte strings in the same order, whatever bytes follow
  on the stream, and exactly the bytes written are consumed. Each frame is four bytes, the
  length with the most significant byte first, followed by the message unchanged; a message of
  4 GiB or more raises \<open>OverflowError\<close> instead of being truncated.
\<close>

theorem framing_roundtrip:
  assumes "\<forall>m \<in> set ms. length m < 2 ^ 32"
  shows "(\<exists>bs. frames ms = Inr bs \<and> length bs = 4 * length ms + sum_list (map length ms) \<and>
            read_frames (length ms) (bs @ rest) = Some (ms, rest)) \<and>
         (\<forall>m. case frame m of
                Inl x \<Rightarrow> x = OverflowError \<and> 2 ^ 32 \<le> length m
              | Inr bs \<Rightarrow> map unat (take 4 bs) =
                    [length m div 2 ^ 24, length m div 2 ^ 16 mod 256, length m div 2 ^ 8 mod 256, length m mod 256] \<and>
                  drop 4 bs = m)"
proof -
  have "\<exists>bs. frames ms = Inr bs \<and> length bs = 4 * length ms + sum_list (map length ms)"
    using assms
  proof (induction ms)
    case (Cons m ms)
    then obtain cs where "frames ms = Inr cs" "length cs = 4 * length ms + sum_list (map length ms)" by auto
    moreover obtain bs where "frame m = Inr bs" "length bs = 4 + length m" using frame_ok [of m] Cons.prems by auto
    ultimately show ?case by simp
  qed simp
  then have "\<exists>bs. frames ms = Inr bs \<and> length bs = 4 * length ms + sum_list (map length ms) \<and>
      read_frames (length ms) (bs @ rest) = Some (ms, rest)"
    using read_frames_append by blast
  moreover have "case frame m of
      Inl x \<Rightarrow> x = OverflowError \<and> 2 ^ 32 \<le> length m
    | Inr bs \<Rightarrow> map unat (take 4 bs) =
          [length m div 2 ^ 24, length m div 2 ^ 16 mod 256, length m div 2 ^ 8 mod 256, length m mod 256] \<and>
        drop 4 bs = m" for m
  proof (cases "frame m")
    case (Inl x)
    then show ?thesis by (auto simp: frame_def to_bytes4_def split: if_splits)
  next
    case (Inr bs)
    then show ?thesis using frame_prefix [OF Inr] by simp
  qed
  ultimately show ?thesis by blast
qed

theorem framing_roundtrip_witness:
  "\<exists>bs. frames [[1, 2], []] = Inr bs \<and> length bs = 10 \<and> read_frames 2 (bs @ [7]) = Some ([[1, 2], []], [7])"
proof -
  have "\<forall>m \<in> set [[1, 2], [] :: byte list]. length m < 2 ^ 32" by simp
  from framing_roundtrip [OF this, of "[7]"] show ?thesis
    by (simp add: numeral_2_eq_2 del: frames.simps read_frames.simps)
qed

end
