(* ===== verification/Connection.thy ===== *)
theory Connection
  imports Broker_Server Wire_Protocol
begin

text \<open>
  \<open>handle_connection\<close> and \<open>_send_response\<close> of \<open>broker/server.py\<close>: the read loop of one client
  connection over the bytes the client sends before it closes. \<open>enc\<close> stands for
  \<open>json.dumps(...).encode("utf-8")\<close>, \<open>dec\<close> for \<open>json.loads(raw.decode("utf-8"))\<close> with \<open>None\<close>
  for a decoding error; \<open>env i\<close> is the environment of the \<open>i\<close>-th dispatched message. The
  theorems show that the loop ends, that a well-formed conversation is exactly the sequence of
  dispatches with one response frame each, in order, and what malformed and oversized input
  does.
\<close>

section \<open>The loop\<close>

definition send_response :: "(json \<Rightarrow> byte list) \<Rightarrow> json \<Rightarrow> exn + byte list" where
  "send_response enc data = frame (enc data)"

definition MAX_MESSAGE :: nat where
  "MAX_MESSAGE = 10 * 1024 * 1024"

datatype conn_end = Disconnected | Oversized | Crashed exn

text \<open>One iteration: the response frame to write and either the rest of the input or the end.\<close>

definition conn_step ::
  "(json \<Rightarrow> byte list) \<Rightarrow> (byte list \<Rightarrow> json option) \<Rightarrow> call_env \<Rightarrow> byte list \<Rightarrow> broker \<Rightarrow>
   byte list \<times> (conn_end + byte list) \<times> bool \<times> broker" where
  "conn_step enc dec e inp b =
     (case read_exactly 4 inp of
        None \<Rightarrow> ([], Inl Disconnected, False, b)
      | Some (raw_len, rest) \<Rightarrow>
          (let msg_len = from_bytes raw_len
           in if msg_len > MAX_MESSAGE
              then (case send_response enc (err ''Message too large'') of
                      Inl x \<Rightarrow> ([], Inl (Crashed x), False, b)
                    | Inr out \<Rightarrow> (out, Inl Oversized, False, b))
              else case read_exactly msg_len rest of
                None \<Rightarrow> ([], Inl Disconnected, False, b)
              | Some (raw_msg, rest') \<Rightarrow>
                  (case dec raw_msg of
                     None \<Rightarrow>
                       (case send_response enc (err ''Invalid JSON'') of
                          Inl x \<Rightarrow> ([], Inl (Crashed x), False, b)
                        | Inr out \<Rightarrow> (out, Inr rest', False, b))
                   | Some msg \<Rightarrow>
                       (case dispatch e msg b of
                          (Inl x, b') \<Rightarrow> ([], Inl (Crashed x), True, b')
                        | (Inr r, b') \<Rightarrow>
                            (case send_response enc r of
                               Inl x \<Rightarrow> ([], Inl (Crashed x), True, b')
                             | Inr out \<Rightarrow> (out, Inr rest', True, b'))))))"

lemma conn_step_shorter:
  "conn_step enc dec e inp b = (out, Inr rest, d, b') \<Longrightarrow> length rest < length inp"
  by (auto simp: conn_step_def read_exactly_def Let_def split: option.splits if_splits sum.splits prod.splits)

text \<open>The \<open>while True\<close> loop; \<open>i\<close> counts the dispatched messages. Every iteration that goes on
  consumes at least the length prefix.\<close>

function conn_loop ::
  "(json \<Rightarrow> byte list) \<Rightarrow> (byte list \<Rightarrow> json option) \<Rightarrow> (nat \<Rightarrow> call_env) \<Rightarrow> nat \<Rightarrow> byte list \<Rightarrow> broker \<Rightarrow>
   byte list list \<times> conn_end \<times> broker" where
  "conn_loop enc dec env i inp b =
     (case conn_step enc dec (env i) inp b of
        (out, Inl stop, d, b1) \<Rightarrow> ((if out = [] then [] else [out]), stop, b1)
      | (out, Inr rest, d, b1) \<Rightarrow>
          (case conn_loop enc dec env (if d then Suc i else i) rest b1 of
             (outs, stop, b2) \<Rightarrow> (out # outs, stop, b2)))"
  by pat_completeness auto

termination
  by (relation "measure (\<lambda>(_, _, _, _, inp, _). length inp)") (auto dest: conn_step_shorter [OF sym])

declare conn_loop.simps [simp del]

definition handle_connection ::
  "(json \<Rightarrow> byte list) \<Rightarrow> (byte list \<Rightarrow> json option) \<Rightarrow> (nat \<Rightarrow> call_env) \<Rightarrow> byte list \<Rightarrow> broker \<Rightarrow>
   byte list list \<times> conn_end \<times> broker" where
  "handle_connection enc dec env inp b =
     (case conn_loop enc dec env 0 inp (b\<lparr>bk_active_connections := Suc (bk_active_connections b)\<rparr>) of
        (outs, stop, b1) \<Rightarrow> (outs, stop, b1\<lparr>bk_active_connections := bk_active_connections b1 - 1\<rparr>))"

section \<open>The connection counter\<close>

lemma persist_new_conn [simp]: "bk_active_connections (persist_new now q tid b) = bk_active_connections b"
  by (simp add: persist_new_def with_wal_def split: option.split)

lemma with_wal_conn [simp]: "bk_active_connections (with_wal f b) = bk_active_connections b"
  by (simp add: with_wal_def)

lemma handlers_conn:
  "h e m b = (r, b') \<Longrightarrow>
   h \<in> {handle_produce, handle_consume, handle_register, handle_heartbeat, handle_ack, handle_nack,
        handle_dlq_list, handle_dlq_replay, handle_dlq_purge, handle_stats, handle_metrics} \<Longrightarrow>
   bk_active_connections b' = bk_active_connections b"
  apply (elim insertE emptyE; hypsubst)
            apply (auto simp: handle_produce_def Let_def split: if_splits json.splits prod.splits) [1]
           apply (auto simp: handle_consume_def Let_def split: if_splits json.splits prod.splits option.splits) [1]
          apply (auto simp: handle_register_def split: if_splits json.splits prod.splits option.splits) [1]
         apply (auto simp: handle_heartbeat_def split: if_splits json.splits prod.splits) [1]
        apply (auto simp: handle_ack_def Let_def split: if_splits json.splits prod.splits bool.splits sum.splits) [1]
       apply (auto simp: handle_nack_def Let_def split: if_splits json.splits prod.splits option.splits sum.splits nack_result.splits) [1]
      apply (auto simp: handle_dlq_list_def Let_def split: option.splits) [1]
     apply (auto simp: handle_dlq_replay_def Let_def split: if_splits json.splits prod.splits option.splits sum.splits) [1]
    apply (auto simp: handle_dlq_purge_def split: option.splits prod.splits) [1]
   apply (auto simp: handle_stats_def split: prod.splits) [1]
  apply (auto simp: handle_metrics_def get_metrics_snapshot_def Let_def split: prod.splits) [1]
  done

lemma dispatch_conn: "dispatch e msg b = (r, b') \<Longrightarrow> bk_active_connections b' = bk_active_connections b"
proof (cases "\<exists>m c h. msg = JDict m \<and> dict_get handlers c = Some h \<and> h e m b = (r, b')")
  case True
  then obtain m c h where h: "dict_get handlers c = Some h" and run: "h e m b = (r, b')" by blast
  show ?thesis
    by (rule handlers_conn [of h e m b r b', OF run]) (use dict_get_in [OF h] in \<open>auto simp: handlers_def\<close>)
next
  case False
  assume "dispatch e msg b = (r, b')"
  with False have "b' = b" by (auto simp: dispatch_def split: json.splits if_splits option.splits)
  then show ?thesis by simp
qed

lemma conn_step_conn:
  "conn_step enc dec e inp b = (out, x, d, b') \<Longrightarrow> bk_active_connections b' = bk_active_connections b"
  by (auto simp: conn_step_def Let_def split: option.splits prod.splits if_splits sum.splits dest: dispatch_conn)

lemma conn_loop_conn:
  "conn_loop enc dec env i inp b = (outs, stop, b') \<Longrightarrow> bk_active_connections b' = bk_active_connections b"
proof (induction "length inp" arbitrary: i inp b outs rule: less_induct)
  case less
  obtain out x d b1 where step: "conn_step enc dec (env i) inp b = (out, x, d, b1)" by (metis prod_cases4)
  show ?case
  proof (cases x)
    case (Inl s)
    with less.prems step show ?thesis by (simp add: conn_loop.simps [of _ _ _ i] conn_step_conn)
  next
    case (Inr rest)
    obtain outs' where "conn_loop enc dec env (if d then Suc i else i) rest b1 = (outs', stop, b')"
      using less.prems step Inr by (auto simp: conn_loop.simps [of _ _ _ i inp] split: prod.splits)
    with less.hyps conn_step_shorter [OF step [unfolded Inr]] conn_step_conn [OF step] show ?thesis by metis
  qed
qed

section \<open>Conversations\<close>

text \<open>What a client sees of the broker without the bytes: the messages dispatched one after the
  other until one raises.\<close>

fun converse :: "(nat \<Rightarrow> call_env) \<Rightarrow> nat \<Rightarrow> json list \<Rightarrow> broker \<Rightarrow> json list \<times> conn_end \<times> broker" where
  "converse env i [] b = ([], Disconnected, b)"
| "converse env i (msg # msgs) b =
     (case dispatch (env i) msg b of
        (Inl x, b1) \<Rightarrow> ([], Crashed x, b1)
      | (Inr r, b1) \<Rightarrow>
          (case converse env (Suc i) msgs b1 of (rs, stop, b2) \<Rightarrow> (r # rs, stop, b2)))"

lemma frame_not_empty: "frame m = Inr bs \<Longrightarrow> bs \<noteq> []"
  using from_to_bytes [of "length m"] by (auto simp: frame_def split: sum.splits)

lemma conn_step_message:
  assumes "frame m = Inr bs" and "length m \<le> MAX_MESSAGE"
  shows "conn_step enc dec e (bs @ rest) b =
         (case dec m of
            None \<Rightarrow>
              (case send_response enc (err ''Invalid JSON'') of
                 Inl x \<Rightarrow> ([], Inl (Crashed x), False, b)
               | Inr out \<Rightarrow> (out, Inr rest, False, b))
          | Some msg \<Rightarrow>
              (case dispatch e msg b of
                 (Inl x, b') \<Rightarrow> ([], Inl (Crashed x), True, b')
               | (Inr r, b') \<Rightarrow>
                   (case send_response enc r of
                      Inl x \<Rightarrow> ([], Inl (Crashed x), True, b')
                    | Inr out \<Rightarrow> (out, Inr rest, True, b'))))"
proof -
  obtain pre where pre: "to_bytes4 (length m) = Inr pre" and bs: "bs = pre @ m"
    using assms(1) by (auto simp: frame_def split: sum.splits)
  with from_to_bytes [OF pre] assms(2) show ?thesis
    by (simp add: conn_step_def read_exactly_def Let_def not_less)
qed

lemma conn_loop_converse:
  assumes "frames (map enc msgs) = Inr inp"
    and "\<forall>msg \<in> set msgs. dec (enc msg) = Some msg \<and> length (enc msg) \<le> MAX_MESSAGE"
    and "converse env i msgs b = (rs, stop, b')" and "\<forall>r \<in> set rs. length (enc r) < 2 ^ 32"
  shows "\<exists>outs. conn_loop enc dec env i inp b = (outs, stop, b') \<and> map Inr outs = map (send_response enc) rs"
  using assms
proof (induction msgs arbitrary: inp i b rs)
  case Nil
  then show ?case by (simp add: conn_loop.simps [of _ _ _ i] conn_step_def read_exactly_def)
next
  case (Cons msg msgs)
  obtain bs cs where bs: "frame (enc msg) = Inr bs" and cs: "frames (map enc msgs) = Inr cs" and inp: "inp = bs @ cs"
    using Cons.prems(1) by (auto split: sum.splits)
  have msg: "dec (enc msg) = Some msg" "length (enc msg) \<le> MAX_MESSAGE" using Cons.prems(2) by auto
  obtain a b1 where run: "dispatch (env i) msg b = (a, b1)" by fastforce
  show ?case
  proof (cases a)
    case (Inl x)
    then show ?thesis
      using Cons.prems(3) run msg conn_step_message [OF bs msg(2), of enc dec "env i" cs b]
      by (simp add: inp conn_loop.simps [of _ _ _ i])
  next
    case (Inr r)
    obtain rs' where rs: "rs = r # rs'" and rest: "converse env (Suc i) msgs b1 = (rs', stop, b')"
      using Cons.prems(3) run Inr by (auto split: prod.splits)
    obtain out where out: "send_response enc r = Inr out"
      using frame_ok [of "enc r"] Cons.prems(4) rs by (auto simp: send_response_def)
    obtain outs where "conn_loop enc dec env (Suc i) cs b1 = (outs, stop, b')"
      and "map Inr outs = map (send_response enc) rs'"
      using Cons.IH [OF cs _ rest] Cons.prems(2,4) rs by auto
    then show ?thesis
      using run Inr msg out rs conn_step_message [OF bs msg(2), of enc dec "env i" cs b]
      by (simp add: inp conn_loop.simps [of _ _ _ i])
  qed
qed

section \<open>Properties\<close>

text \<open>
  C10. A connection is a sequence of dispatches. Consider one connection by itself, with no other
  activity of the broker in between. A client that writes properly framed JSON
  messages of at most 10 MiB and then closes gets exactly the responses of dispatching its
  messages one after the other, one frame each and in order, up to the first message whose
  handler raises, which ends the connection; the broker ends in the state of those dispatches,
  and the count of active connections is back where it was. (\<open>enc\<close> and \<open>dec\<close>, the JSON codec,
  need to agree on the messages of the client only.)
\<close>

theorem connection_is_dispatch_sequence:
  assumes "frames (map enc msgs) = Inr inp"
    and "\<forall>msg \<in> set msgs. dec (enc msg) = Some msg \<and> length (enc msg) \<le> MAX_MESSAGE"
    and "converse env 0 msgs (b\<lparr>bk_active_connections := Suc (bk_active_connections b)\<rparr>) = (rs, stop, b')"
    and "\<forall>r \<in> set rs. length (enc r) < 2 ^ 32"
  shows "\<exists>outs. handle_connection enc dec env inp b =
           (outs, stop, b'\<lparr>bk_active_connections := bk_active_connections b\<rparr>) \<and>
         map Inr outs = map (send_response enc) rs"
proof -
  obtain outs where loop: "conn_loop enc dec env 0 inp (b\<lparr>bk_active_connections := Suc (bk_active_connections b)\<rparr>) =
      (outs, stop, b')" and "map Inr outs = map (send_response enc) rs"
    using conn_loop_converse [OF assms] by blast
  then show ?thesis using conn_loop_conn [OF loop] by (simp add: handle_connection_def)
qed

definition idle_broker :: broker where
  "idle_broker = bk_init 0 None"

definition idle_env :: call_env where
  "idle_env = \<lparr>env_time = 0, env_monotonic = 0, env_uuid = ''u'', env_peer = (''h'', 1), env_conn = None\<rparr>"

theorem connection_is_dispatch_sequence_witness:
  "\<exists>inp outs b'. frames [[1, 2]] = Inr inp \<and>
     handle_connection (\<lambda>_. [1, 2]) (\<lambda>_. Some (JDict [])) (\<lambda>_. idle_env) inp idle_broker = (outs, Disconnected, b') \<and>
     length outs = 1"
proof -
  let ?enc = "\<lambda>_ :: json. [1, 2] :: byte list" and ?dec = "\<lambda>_ :: byte list. Some (JDict [])"
  let ?b = "idle_broker\<lparr>bk_active_connections := Suc (bk_active_connections idle_broker)\<rparr>"
  obtain inp where inp: "frames (map ?enc [JDict []]) = Inr inp" by (simp add: frame_def to_bytes4_def)
  have talk: "converse (\<lambda>_. idle_env) 0 [JDict []] ?b =
      ([err ''Missing 'command' field''], Disconnected, ?b)"
    by (simp add: dispatch_def dict_get_or_def)
  have "\<forall>msg \<in> set [JDict []]. ?dec (?enc msg) = Some msg \<and> length (?enc msg) \<le> MAX_MESSAGE"
    and "\<forall>r \<in> set [err ''Missing 'command' field'']. length (?enc r) < 2 ^ 32"
    by (simp_all add: MAX_MESSAGE_def)
  from connection_is_dispatch_sequence [OF inp this(1) talk this(2)] obtain outs where
    "handle_connection ?enc ?dec (\<lambda>_. idle_env) inp idle_broker =
       (outs, Disconnected, ?b\<lparr>bk_active_connections := bk_active_connections idle_broker\<rparr>)"
    and "map Inr outs = map (send_response ?enc) [err ''Missing 'command' field'']" by blast
  moreover from this(2) have "length outs = 1" by (metis length_map length_Cons list.size(3) One_nat_def)
  ultimately show ?thesis using inp by auto
qed

text \<open>
  C21. Malformed input is contained. A frame whose content is not JSON is answered with one
  error frame, leaves the broker state untouched, and the loop goes on with the bytes after
  it; a length prefix above 10 MiB is answered with an error and ends the connection without
  reading on and without touching the state.
\<close>

theorem malformed_input_contained:
  assumes "frame m = Inr bs" and "length m \<le> MAX_MESSAGE" and "dec m = None"
    and "send_response enc (err ''Invalid JSON'') = Inr out1"
    and "from_bytes big > MAX_MESSAGE" and "length big = 4"
    and "send_response enc (err ''Message too large'') = Inr out2"
  shows "conn_loop enc dec env i (bs @ rest) b =
           (case conn_loop enc dec env i rest b of (outs, stop, b') \<Rightarrow> (out1 # outs, stop, b')) \<and>
         conn_loop enc dec env i (big @ rest) b = ([out2], Oversized, b)"
proof -
  have "conn_step enc dec (env i) (bs @ rest) b = (out1, Inr rest, False, b)"
    using conn_step_message [OF assms(1,2)] assms(3,4) by simp
  moreover have "conn_step enc dec (env i) (big @ rest) b = (out2, Inl Oversized, False, b)"
    using assms(5-7) by (simp add: conn_step_def read_exactly_def Let_def)
  moreover have "out2 \<noteq> []" using assms(7) frame_not_empty by (simp add: send_response_def)
  ultimately show ?thesis by (simp add: conn_loop.simps [of _ _ _ i "bs @ rest"] conn_loop.simps [of _ _ _ i "big @ rest"])
qed

theorem malformed_input_contained_witness:
  "\<exists>bs out. frame [0] = Inr bs \<and> frame [1, 2] = Inr out \<and>
     conn_loop (\<lambda>_. [1, 2]) (\<lambda>_. None) (\<lambda>_. idle_env) 0 (bs @ []) idle_broker =
       (case conn_loop (\<lambda>_. [1, 2]) (\<lambda>_. None) (\<lambda>_. idle_env) 0 [] idle_broker of (outs, stop, b') \<Rightarrow> (out # outs, stop, b'))"
proof -
  let ?enc = "\<lambda>_ :: json. [1, 2] :: byte list"
  obtain bs where bs: "frame [0] = Inr bs" by (simp add: frame_def to_bytes4_def)
  obtain out where out: "frame [1, 2] = Inr out" by (simp add: frame_def to_bytes4_def)
  have big: "from_bytes [255, 0, 0, 0] > MAX_MESSAGE" by (simp add: from_bytes_def MAX_MESSAGE_def)
  have "length [0 :: byte] \<le> MAX_MESSAGE" by (simp add: MAX_MESSAGE_def)
  from malformed_input_contained [OF bs this, of "\<lambda>_. None" ?enc out "[255, 0, 0, 0]" out "\<lambda>_. idle_env" 0 "[]" idle_broker]
    big out bs show ?thesis by (simp add: send_response_def)
qed

end
