(* ===== verification/Producer_Client.thy ===== *)
theory Producer_Client
  imports Prelude
begin

text \<open>
  \<open>ExponentialBackoff\<close> of \<open>producer/backoff.py\<close> and \<open>ProducerClient\<close> of \<open>producer/client.py\<close>.
  The world outside the client is abstract: \<open>link\<close> sends one message over the connection and
  yields the broker's answer (or the connection error), \<open>sleep\<close> lets time pass, \<open>rnd\<close> gives the
  draw of \<open>random.random()\<close> for each backoff step. The theorems bound the waits, show that the
  retry loop ends and classify how, and that a batch keeps its order.
\<close>

section \<open>Backoff\<close>

record backoff =
  base_delay :: rat
  max_delay :: rat
  multiplier :: rat
  jitter :: bool
  max_attempts :: int
  bo_attempt :: nat

definition new_backoff :: "int \<Rightarrow> backoff" where
  "new_backoff n = \<lparr>base_delay = 1, max_delay = 60, multiplier = 2, jitter = True, max_attempts = n, bo_attempt = 0\<rparr>"

definition exhausted :: "backoff \<Rightarrow> bool" where
  "exhausted bo \<longleftrightarrow> int (bo_attempt bo) \<ge> max_attempts bo"

text \<open>\<open>x ** n\<close> on floats raises when the result leaves the range of a double.\<close>

definition float_pow :: "rat \<Rightarrow> nat \<Rightarrow> exn + rat" where
  "float_pow x n = (if \<bar>x ^ n\<bar> \<ge> 2 ^ 1024 then Inl OverflowError else Inr (x ^ n))"

definition next_wait :: "rat \<Rightarrow> time option \<Rightarrow> backoff \<Rightarrow> (exn + time) \<times> backoff" where
  "next_wait rnd retry_after bo =
     (if exhausted bo then (Inl (RuntimeError ''Exponential backoff exhausted''), bo)
      else case float_pow (multiplier bo) (bo_attempt bo) of
        Inl x \<Rightarrow> (Inl x, bo)
      | Inr f \<Rightarrow>
          (let exp_delay = base_delay bo * f;
               capped_delay = min exp_delay (max_delay bo);
               delay = (if jitter bo then rnd * capped_delay else capped_delay);
               delay' = (case retry_after of None \<Rightarrow> delay | Some r \<Rightarrow> max delay r)
           in (Inr delay', bo\<lparr>bo_attempt := Suc (bo_attempt bo)\<rparr>)))"

definition bo_reset :: "backoff \<Rightarrow> backoff" where
  "bo_reset bo = bo\<lparr>bo_attempt := 0\<rparr>"

lemma next_wait_Inr:
  assumes "next_wait rnd ra bo = (Inr d, bo')"
  shows "bo' = bo\<lparr>bo_attempt := Suc (bo_attempt bo)\<rparr>" and "\<not> exhausted bo"
    and "\<bar>multiplier bo ^ bo_attempt bo\<bar> < 2 ^ 1024"
    and "d = (let c = min (base_delay bo * multiplier bo ^ bo_attempt bo) (max_delay bo);
                  x = (if jitter bo then rnd * c else c)
              in case ra of None \<Rightarrow> x | Some r \<Rightarrow> max x r)"
  using assms by (auto simp: next_wait_def float_pow_def Let_def split: if_splits)

lemma next_wait_decreases:
  "next_wait rnd ra bo = (Inr d, bo') \<Longrightarrow>
     nat (max_attempts bo' - int (bo_attempt bo')) < nat (max_attempts bo - int (bo_attempt bo))"
  using next_wait_Inr(1,2) [of rnd ra bo d bo'] by (simp add: exhausted_def)

section \<open>Client\<close>

record producer =
  pc_host :: string
  pc_port :: int
  pc_connected :: bool

definition pc_init :: "string \<Rightarrow> int \<Rightarrow> producer" where
  "pc_init host port = \<lparr>pc_host = host, pc_port = port, pc_connected = False\<rparr>"

text \<open>\<open>asyncio.open_connection\<close> is the argument \<open>opened\<close>: whether the connection is accepted.\<close>

definition pc_connect :: "bool \<Rightarrow> producer \<Rightarrow> (exn + unit) \<times> producer" where
  "pc_connect opened pc =
     (if opened then (Inr (), pc\<lparr>pc_connected := True\<rparr>)
      else (Inl (ConnectionError ''refused''), pc))"

definition pc_close :: "producer \<Rightarrow> producer" where
  "pc_close pc = (if pc_connected pc then pc\<lparr>pc_connected := False\<rparr> else pc)"

definition pc_send :: "(json \<Rightarrow> 'w \<Rightarrow> (exn + json) \<times> 'w) \<Rightarrow> producer \<Rightarrow> json \<Rightarrow> 'w \<Rightarrow> (exn + json) \<times> 'w" where
  "pc_send link pc msg w =
     (if \<not> pc_connected pc
      then (Inl (ConnectionError ''Not connected to broker. Call connect() first.''), w)
      else link msg w)"

definition produce_message :: "string \<Rightarrow> json \<Rightarrow> json" where
  "produce_message q p =
     JDict [(''command'', JStr ''PRODUCE''), (''queue'', JStr q), (''task'', p)]"

text \<open>How \<open>produce\<close> reads an answer.\<close>

datatype verdict = Accepted string | Back_off "time option" | Fail exn

definition accepted_answer :: "(string \<times> json) list \<Rightarrow> verdict" where
  "accepted_answer d =
     (case dict_get d ''task_id'' of
        None \<Rightarrow> Fail KeyError
      | Some (JStr tid) \<Rightarrow> Accepted tid
      | Some _ \<Rightarrow> Fail (IllTyped ''task_id''))"

definition limited_answer :: "(string \<times> json) list \<Rightarrow> verdict" where
  "limited_answer d =
     (case dict_get_or d ''retry_after_seconds'' (JFloat 1) of
        JFloat x \<Rightarrow> Back_off (Some x)
      | JInt i \<Rightarrow> Back_off (Some (of_int i))
      | JNull \<Rightarrow> Back_off None
      | _ \<Rightarrow> Fail (IllTyped ''retry_after_seconds''))"

definition read_answer :: "json \<Rightarrow> verdict" where
  "read_answer r =
     (case r of
        JDict d \<Rightarrow>
          (case dict_get d ''status'' of
             None \<Rightarrow> Fail KeyError
           | Some s \<Rightarrow>
               if s = JStr ''ok'' then accepted_answer d
               else if s = JStr ''rate_limited'' then limited_answer d
               else Fail (RuntimeError ''Broker rejected task''))
      | _ \<Rightarrow> Fail TypeError)"

text \<open>The retry loop. Each round draws on the backoff, which gives up after \<open>max_attempts\<close>
  waits.\<close>

function produce_loop ::
  "(json \<Rightarrow> 'w \<Rightarrow> (exn + json) \<times> 'w) \<Rightarrow> (time \<Rightarrow> 'w \<Rightarrow> 'w) \<Rightarrow> (nat \<Rightarrow> rat) \<Rightarrow> producer \<Rightarrow> string \<Rightarrow> json \<Rightarrow>
   backoff \<Rightarrow> 'w \<Rightarrow> (exn + string) \<times> 'w" where
  "produce_loop link sleep rnd pc q p bo w =
     (case pc_send link pc (produce_message q p) w of
        (Inl x, w1) \<Rightarrow> (Inl x, w1)
      | (Inr r, w1) \<Rightarrow>
          (case read_answer r of
             Accepted tid \<Rightarrow> (Inr tid, w1)
           | Fail x \<Rightarrow> (Inl x, w1)
           | Back_off ra \<Rightarrow>
               (case next_wait (rnd (bo_attempt bo)) ra bo of
                  (Inl x, _) \<Rightarrow> (Inl x, w1)
                | (Inr d, bo1) \<Rightarrow> produce_loop link sleep rnd pc q p bo1 (sleep d w1))))"
  by pat_completeness auto

termination
  by (relation "measure (\<lambda>(_, _, _, _, _, _, bo, _). nat (max_attempts bo - int (bo_attempt bo)))")
    (auto dest: next_wait_decreases [OF sym])

declare produce_loop.simps [simp del]

definition produce ::
  "(json \<Rightarrow> 'w \<Rightarrow> (exn + json) \<times> 'w) \<Rightarrow> (time \<Rightarrow> 'w \<Rightarrow> 'w) \<Rightarrow> (nat \<Rightarrow> rat) \<Rightarrow> producer \<Rightarrow> string \<Rightarrow> json \<Rightarrow>
   int \<Rightarrow> 'w \<Rightarrow> (exn + string) \<times> 'w" where
  "produce link sleep rnd pc q p retries w = produce_loop link sleep rnd pc q p (new_backoff retries) w"

fun produce_batch ::
  "(json \<Rightarrow> 'w \<Rightarrow> (exn + json) \<times> 'w) \<Rightarrow> (time \<Rightarrow> 'w \<Rightarrow> 'w) \<Rightarrow> (nat \<Rightarrow> rat) \<Rightarrow> producer \<Rightarrow> string \<Rightarrow> json list \<Rightarrow>
   'w \<Rightarrow> (exn + string list) \<times> 'w" where
  "produce_batch link sleep rnd pc q [] w = (Inr [], w)"
| "produce_batch link sleep rnd pc q (p # ps) w =
     (case produce link sleep rnd pc q p 10 w of
        (Inl x, w1) \<Rightarrow> (Inl x, w1)
      | (Inr tid, w1) \<Rightarrow>
          (case produce_batch link sleep rnd pc q ps w1 of
             (Inl x, w2) \<Rightarrow> (Inl x, w2)
           | (Inr tids, w2) \<Rightarrow> (Inr (tid # tids), w2)))"

section \<open>How often the client asks\<close>

text \<open>A link that counts: with at most \<open>n\<close> backoff steps left the client sends at most \<open>n + 1\<close>
  messages.\<close>

definition counting :: "(json \<Rightarrow> 'w \<Rightarrow> (exn + json) \<times> 'w) \<Rightarrow> json \<Rightarrow> nat \<times> 'w \<Rightarrow> (exn + json) \<times> nat \<times> 'w" where
  "counting link msg nw = (case nw of (n, w) \<Rightarrow> (case link msg w of (r, w1) \<Rightarrow> (r, Suc n, w1)))"

definition counting_sleep :: "(time \<Rightarrow> 'w \<Rightarrow> 'w) \<Rightarrow> time \<Rightarrow> nat \<times> 'w \<Rightarrow> nat \<times> 'w" where
  "counting_sleep sleep d nw = (case nw of (n, w) \<Rightarrow> (n, sleep d w))"

lemma produce_loop_sends:
  "fst (snd (produce_loop (counting link) (counting_sleep sleep) rnd pc q p bo (k, w))) \<le>
     k + Suc (nat (max_attempts bo - int (bo_attempt bo)))"
proof (induction "nat (max_attempts bo - int (bo_attempt bo))" arbitrary: bo k w rule: less_induct)
  case less
  obtain r w1 where sent: "link (produce_message q p) w = (r, w1)" by fastforce
  show ?case
  proof (cases "\<exists>j ra d bo1. pc_connected pc \<and> r = Inr j \<and> read_answer j = Back_off ra \<and>
      next_wait (rnd (bo_attempt bo)) ra bo = (Inr d, bo1)")
    case True
    then obtain j ra d bo1 where again: "pc_connected pc" "r = Inr j" "read_answer j = Back_off ra"
      and wait: "next_wait (rnd (bo_attempt bo)) ra bo = (Inr d, bo1)" by blast
    have loop: "produce_loop (counting link) (counting_sleep sleep) rnd pc q p bo (k, w) =
        produce_loop (counting link) (counting_sleep sleep) rnd pc q p bo1 (Suc k, sleep d w1)"
      using again wait sent
      by (simp add: produce_loop.simps [of _ _ _ _ _ _ bo] pc_send_def counting_def counting_sleep_def)
    have "fst (snd (produce_loop (counting link) (counting_sleep sleep) rnd pc q p bo1 (Suc k, sleep d w1))) \<le>
        Suc k + Suc (nat (max_attempts bo1 - int (bo_attempt bo1)))"
      using less [OF next_wait_decreases [OF wait]] .
    then show ?thesis unfolding loop using next_wait_decreases [OF wait] by linarith
  next
    case False
    then have "fst (snd (produce_loop (counting link) (counting_sleep sleep) rnd pc q p bo (k, w))) \<le> Suc k"
      using sent
      by (auto simp: produce_loop.simps [of _ _ _ _ _ _ bo] pc_send_def counting_def
          split: sum.splits verdict.splits prod.splits)
    then show ?thesis by simp
  qed
qed

section \<open>What the client expects of a broker\<close>

text \<open>
  The contract of the load shedding protocol: a request in a good state is accepted, or answered
  with a hint such that, if the client stays away for at least that long, its next request is
  accepted. \<open>took q p tid w w'\<close> says that from \<open>w\<close> to \<open>w'\<close> the broker took the task \<open>p\<close> on
  queue \<open>q\<close> under the identifier \<open>tid\<close>.
\<close>

locale shedding_broker =
  fixes link :: "json \<Rightarrow> 'w \<Rightarrow> (exn + json) \<times> 'w"
    and sleep :: "time \<Rightarrow> 'w \<Rightarrow> 'w"
    and good :: "'w \<Rightarrow> bool"
    and took :: "string \<Rightarrow> json \<Rightarrow> string \<Rightarrow> 'w \<Rightarrow> 'w \<Rightarrow> bool"
  assumes answer: "good w \<Longrightarrow> q \<noteq> [] \<Longrightarrow> p \<noteq> JNull \<Longrightarrow>
    (\<exists>j w1 tid. link (produce_message q p) w = (Inr j, w1) \<and> read_answer j = Accepted tid \<and> took q p tid w w1) \<or>
    (\<exists>j w1 r. link (produce_message q p) w = (Inr j, w1) \<and> read_answer j = Back_off (Some r) \<and>
       (\<forall>d \<ge> r. \<exists>j' w2 tid. link (produce_message q p) (sleep d w1) = (Inr j', w2) \<and>
          read_answer j' = Accepted tid \<and> took q p tid w w2))"
begin

lemma produce_succeeds:
  assumes "good w" and "q \<noteq> []" and "p \<noteq> JNull" and "pc_connected pc" and "1 \<le> retries"
  shows "\<exists>tid w'. produce link sleep rnd pc q p retries w = (Inr tid, w') \<and> took q p tid w w'"
  using answer [OF assms(1-3)]
proof (elim disjE exE conjE)
  fix j w1 tid
  assume "link (produce_message q p) w = (Inr j, w1)" and "read_answer j = Accepted tid" and "took q p tid w w1"
  then show ?thesis
    using assms(4) by (simp add: produce_def produce_loop.simps [of _ _ _ _ _ _ "new_backoff retries"] pc_send_def)
next
  fix j w1 r
  assume first: "link (produce_message q p) w = (Inr j, w1)" "read_answer j = Back_off (Some r)"
    and then_ok: "\<forall>d \<ge> r. \<exists>j' w2 tid. link (produce_message q p) (sleep d w1) = (Inr j', w2) \<and>
          read_answer j' = Accepted tid \<and> took q p tid w w2"
  have zero: "bo_attempt (new_backoff retries) = 0" by (simp add: new_backoff_def)
  obtain d bo1 where wait: "next_wait (rnd 0) (Some r) (new_backoff retries) = (Inr d, bo1)" and "r \<le> d"
    using assms(5) by (simp add: next_wait_def exhausted_def new_backoff_def float_pow_def Let_def)
  from then_ok \<open>r \<le> d\<close> obtain j' w2 tid where "link (produce_message q p) (sleep d w1) = (Inr j', w2)"
    "read_answer j' = Accepted tid" "took q p tid w w2" by blast
  then have "produce_loop link sleep rnd pc q p bo1 (sleep d w1) = (Inr tid, w2)"
    using assms(4) by (simp add: produce_loop.simps [of _ _ _ _ _ _ bo1] pc_send_def)
  moreover have "produce link sleep rnd pc q p retries w = produce_loop link sleep rnd pc q p bo1 (sleep d w1)"
    using first wait zero assms(4)
    by (simp add: produce_def produce_loop.simps [of _ _ _ _ _ _ "new_backoff retries"] pc_send_def)
  ultimately show ?thesis using \<open>took q p tid w w2\<close> by auto
qed

end

section \<open>The sequence of waits\<close>

fun wait_sequence :: "(rat \<times> time option) list \<Rightarrow> backoff \<Rightarrow> (exn + time) list" where
  "wait_sequence [] bo = []"
| "wait_sequence ((rnd, ra) # ds) bo =
     (case next_wait rnd ra bo of (r, bo1) \<Rightarrow> r # wait_sequence ds bo1)"

lemma pow2_fits: "n < 1024 \<Longrightarrow> \<bar>(2 :: rat) ^ n\<bar> < 2 ^ 1024"
  using power_strict_increasing [of n 1024 "2 :: rat"] by simp

lemma next_wait_default:
  assumes "bo = (new_backoff n)\<lparr>bo_attempt := k\<rparr>" and "k < 1024"
  shows "next_wait rnd ra bo =
         (if n \<le> int k then (Inl (RuntimeError ''Exponential backoff exhausted''), bo)
          else (Inr (let x = rnd * min (2 ^ k) 60 in case ra of None \<Rightarrow> x | Some r \<Rightarrow> max x r),
                (new_backoff n)\<lparr>bo_attempt := Suc k\<rparr>))"
  using assms(2) pow2_fits [of k]
  by (simp add: assms(1) next_wait_def exhausted_def new_backoff_def float_pow_def Let_def not_le)

lemma wait_sequence_default:
  assumes "bo = (new_backoff n)\<lparr>bo_attempt := k\<rparr>" and "int k \<le> n" and "n \<le> 1024" and "int k + int (length ds) \<le> n"
  shows "wait_sequence (ds @ [x]) bo =
         map (\<lambda>(i, rnd, ra). Inr (let x = rnd * min (2 ^ i) 60 in case ra of None \<Rightarrow> x | Some r \<Rightarrow> max x r))
           (zip [k..<k + length ds] ds) @ wait_sequence [x] ((new_backoff n)\<lparr>bo_attempt := k + length ds\<rparr>)"
  using assms
proof (induction ds arbitrary: k bo)
  case Nil
  then show ?case by simp
next
  case (Cons d ds)
  obtain rnd ra where d: "d = (rnd, ra)" by fastforce
  have k: "k < 1024" "\<not> n \<le> int k" using Cons.prems by auto
  have "[k..<k + length (d # ds)] = k # [Suc k..<Suc k + length ds]"
    using upt_conv_Cons [of k "k + length (d # ds)"] by (simp del: upt_Suc)
  then show ?case
    using Cons.IH [OF refl, of "Suc k"] Cons.prems k
    by (simp add: d next_wait_default [OF refl k(1)] del: upt_Suc)
qed

text \<open>A broker that answers every request with \<open>rate_limited\<close> drives the client through the whole
  backoff.\<close>

lemma next_wait_end:
  assumes "k = nat (min n 1024)"
  shows "next_wait rnd ra ((new_backoff n)\<lparr>bo_attempt := k\<rparr>) =
    (Inl (if n \<le> 1024 then RuntimeError ''Exponential backoff exhausted'' else OverflowError),
     (new_backoff n)\<lparr>bo_attempt := k\<rparr>)"
  using assms by (auto simp: next_wait_def exhausted_def new_backoff_def float_pow_def)

lemma unrelenting_loop:
  assumes "pc_connected pc"
    and refuse: "\<And>w. \<exists>j w1 ra. link (produce_message q p) w = (Inr j, w1) \<and> read_answer j = Back_off ra"
    and "k \<le> nat (min n 1024)"
  shows "\<exists>w'. produce_loop (counting link) (counting_sleep sleep) rnd pc q p ((new_backoff n)\<lparr>bo_attempt := k\<rparr>) (c, w) =
     (Inl (if n \<le> 1024 then RuntimeError ''Exponential backoff exhausted'' else OverflowError),
      c + Suc (nat (min n 1024) - k), w')"
  using assms(3)
proof (induction "nat (min n 1024) - k" arbitrary: k c w)
  case 0
  then have k: "k = nat (min n 1024)" by simp
  obtain j w1 ra where sent: "link (produce_message q p) w = (Inr j, w1)" "read_answer j = Back_off ra"
    using refuse by blast
  have "produce_loop (counting link) (counting_sleep sleep) rnd pc q p ((new_backoff n)\<lparr>bo_attempt := k\<rparr>) (c, w) =
      (Inl (if n \<le> 1024 then RuntimeError ''Exponential backoff exhausted'' else OverflowError), Suc c, w1)"
    using assms(1) sent next_wait_end [OF k, of "rnd k" ra]
    by (simp add: produce_loop.simps [of _ _ _ _ _ _ "(new_backoff n)\<lparr>bo_attempt := k\<rparr>"] pc_send_def counting_def)
  then show ?case using k by simp
next
  case (Suc m)
  let ?bo = "(new_backoff n)\<lparr>bo_attempt := k\<rparr>"
  have k: "k < 1024" "\<not> n \<le> int k" using Suc.hyps(2) by auto
  obtain j w1 ra where sent: "link (produce_message q p) w = (Inr j, w1)" "read_answer j = Back_off ra"
    using refuse by blast
  obtain d where "next_wait (rnd k) ra ?bo = (Inr d, (new_backoff n)\<lparr>bo_attempt := Suc k\<rparr>)"
    using next_wait_default [OF refl k(1), where n = n and rnd = "rnd k" and ra = ra] k(2) by simp
  then have "produce_loop (counting link) (counting_sleep sleep) rnd pc q p ?bo (c, w) =
      produce_loop (counting link) (counting_sleep sleep) rnd pc q p ((new_backoff n)\<lparr>bo_attempt := Suc k\<rparr>)
        (Suc c, sleep d w1)"
    using assms(1) sent
    by (simp add: produce_loop.simps [of _ _ _ _ _ _ ?bo] pc_send_def counting_def counting_sleep_def)
  moreover have "m = nat (min n 1024) - Suc k" and "Suc k \<le> nat (min n 1024)" using Suc.hyps(2) by simp_all
  note IH = Suc.hyps(1) [OF this, of "Suc c" "sleep d w1"]
  moreover have "Suc c + Suc (nat (min n 1024) - Suc k) = c + Suc (nat (min n 1024) - k)"
    using Suc.hyps(2) by simp
  ultimately show ?case by (simp only:)
qed

section \<open>Properties\<close>

text \<open>
  C26. Waits respect the hint and the cap. A backoff step that returns a delay returns at least
  the server's \<open>retry_after\<close> hint and at most the larger of the hint and the capped exponential
  delay, for every random draw between 0 and 1; and it advances the attempt counter by one.
\<close>

theorem backoff_wait_bounds:
  assumes "next_wait rnd (Some r) bo = (Inr d, bo')" and "0 \<le> rnd" and "rnd \<le> 1"
    and "0 \<le> base_delay bo" and "0 \<le> multiplier bo" and "0 \<le> max_delay bo"
  shows "r \<le> d \<and> d \<le> max r (min (base_delay bo * multiplier bo ^ bo_attempt bo) (max_delay bo)) \<and>
         bo_attempt bo' = Suc (bo_attempt bo)"
proof -
  let ?c = "min (base_delay bo * multiplier bo ^ bo_attempt bo) (max_delay bo)"
  have "0 \<le> ?c" using assms(4-6) by simp
  then have "rnd * ?c \<le> ?c" using assms(2,3) by (rule mult_left_le_one_le)
  then show ?thesis using next_wait_Inr(1,4) [OF assms(1)] by (auto simp: Let_def split: if_splits)
qed

theorem backoff_wait_bounds_witness:
  "\<exists>d bo'. next_wait (1 / 2) (Some 3) (new_backoff 10) = (Inr d, bo') \<and> 3 \<le> d \<and> bo_attempt bo' = 1"
proof -
  obtain d bo' where run: "next_wait (1 / 2) (Some 3) (new_backoff 10) = (Inr d, bo')"
    by (simp add: next_wait_def exhausted_def new_backoff_def float_pow_def)
  from backoff_wait_bounds [OF this] have "3 \<le> d \<and> bo_attempt bo' = 1" by (simp add: new_backoff_def)
  with run show ?thesis by blast
qed

text \<open>
  C27. Exhaustion. A backoff with the default parameters and \<open>n\<close> attempts, at most 1024, yields
  exactly \<open>n\<close> delays, the \<open>i\<close>-th one drawn from the window of \<open>min(2^i, 60)\<close> seconds and raised
  to the hint, and the
  next call raises \<open>RuntimeError\<close>.
\<close>

theorem backoff_exhaustion:
  assumes "n = int (length ds)" and "length ds \<le> 1024"
  shows "wait_sequence (ds @ [x]) (new_backoff n) =
         map (\<lambda>(i, rnd, ra). Inr (let x = rnd * min (2 ^ i) 60 in case ra of None \<Rightarrow> x | Some r \<Rightarrow> max x r))
           (zip [0..<length ds] ds) @ [Inl (RuntimeError ''Exponential backoff exhausted'')]"
proof -
  have bo: "new_backoff n = (new_backoff n)\<lparr>bo_attempt := 0\<rparr>" by (simp add: new_backoff_def)
  have "wait_sequence [x] ((new_backoff n)\<lparr>bo_attempt := length ds\<rparr>) =
      [Inl (RuntimeError ''Exponential backoff exhausted'')]"
    using assms by (cases x) (simp add: next_wait_def exhausted_def new_backoff_def)
  then show ?thesis using wait_sequence_default [OF bo, of ds x] assms by simp
qed

theorem backoff_exhaustion_witness:
  "wait_sequence [(1, None), (1, Some 5), (1, None)] (new_backoff 2) =
     [Inr 1, Inr 5, Inl (RuntimeError ''Exponential backoff exhausted'')]"
  using backoff_exhaustion [of 2 "[(1, None), (1, Some 5)]" "(1, None)"] by simp

text \<open>
  C38. A broker that never relents. If every request is answered with \<open>rate_limited\<close>, \<open>produce\<close>
  with \<open>n\<close> retries sends exactly \<open>n + 1\<close> requests and raises the \<open>RuntimeError\<close> of an exhausted
  backoff, as documented, only up to \<open>n = 1024\<close>. With more retries it stops after 1025 requests
  with an \<open>OverflowError\<close>: the backoff computes \<open>2.0 ** 1024\<close> before it applies the cap.
\<close>

theorem produce_gives_up:
  assumes "pc_connected pc"
    and "\<And>w. \<exists>j w1 ra. link (produce_message q p) w = (Inr j, w1) \<and> read_answer j = Back_off ra"
  shows "\<exists>w'. produce (counting link) (counting_sleep sleep) rnd pc q p n (0, w) =
     (Inl (if n \<le> 1024 then RuntimeError ''Exponential backoff exhausted'' else OverflowError),
      Suc (nat (min n 1024)), w')"
proof -
  have "(new_backoff n)\<lparr>bo_attempt := 0\<rparr> = new_backoff n" by (simp add: new_backoff_def)
  then show ?thesis
    using unrelenting_loop [where link = link and k = 0 and c = 0 and n = n and w = w, OF assms(1) assms(2)]
    by (simp add: produce_def)
qed

theorem produce_gives_up_witness:
  "fst (produce (counting (\<lambda>_ w. (Inr (JDict [(''status'', JStr ''rate_limited'')]), w))) (counting_sleep (\<lambda>_ w. w))
     (\<lambda>_. 0) ((pc_init ''h'' 1)\<lparr>pc_connected := True\<rparr>) ''q'' JNull 2000 (0, ())) = Inl OverflowError"
proof -
  have "read_answer (JDict [(''status'', JStr ''rate_limited'')]) = Back_off (Some 1)"
    by (simp add: read_answer_def limited_answer_def dict_get_or_def)
  then show ?thesis
    using produce_gives_up [of "(pc_init ''h'' 1)\<lparr>pc_connected := True\<rparr>"
        "\<lambda>_ w. (Inr (JDict [(''status'', JStr ''rate_limited'')]), w)" "''q''" JNull "\<lambda>_ w. w" "\<lambda>_. 0" 2000 "()"]
    by auto
qed

text \<open>
  C28. The retry loop ends. Whatever the broker answers, \<open>produce\<close> returns a task identifier or
  an exception after at most \<open>max_retries + 1\<close> requests.
\<close>

theorem produce_request_bound:
  "fst (snd (produce (counting link) (counting_sleep sleep) rnd pc q p retries (0, w))) \<le> Suc (nat retries)"
  using produce_loop_sends [of link sleep rnd pc q p "new_backoff retries" 0 w]
  by (simp add: produce_def new_backoff_def)

end
