(* ===== verification/End_To_End.thy ===== *)
theory End_To_End
  imports Durability Connection Producer_Client
begin

text \<open>
  The producer client against the broker model. The world is the broker with its clocks and a
  supply of identifiers; one request is one dispatch (theory \<open>Connection\<close> relates the bytes to
  it), and a request whose handler raises costs the client its connection. The broker meets the
  contract \<open>shedding_broker\<close> of the client because the hint of the load shedder is honest.
\<close>

section \<open>The world of a lone producer\<close>

record world =
  w_broker :: broker
  w_time :: time
  w_monotonic :: time
  w_next :: nat

definition env_of :: "(nat \<Rightarrow> string) \<Rightarrow> world \<Rightarrow> call_env" where
  "env_of ids w =
     \<lparr>env_time = w_time w, env_monotonic = w_monotonic w, env_uuid = ids (w_next w),
      env_peer = (''client'', 0), env_conn = None\<rparr>"

definition broker_link :: "(nat \<Rightarrow> string) \<Rightarrow> json \<Rightarrow> world \<Rightarrow> (exn + json) \<times> world" where
  "broker_link ids msg w =
     (case dispatch (env_of ids w) msg (w_broker w) of
        (Inl _, b) \<Rightarrow> (Inl IncompleteReadError, w\<lparr>w_broker := b, w_next := Suc (w_next w)\<rparr>)
      | (Inr r, b) \<Rightarrow> (Inr r, w\<lparr>w_broker := b, w_next := Suc (w_next w)\<rparr>))"

definition pass_time :: "time \<Rightarrow> world \<Rightarrow> world" where
  "pass_time d w = w\<lparr>w_time := w_time w + d, w_monotonic := w_monotonic w + d\<rparr>"

definition world_ok :: "world \<Rightarrow> bool" where
  "world_ok w \<longleftrightarrow> ls_ok (bk_ls (w_broker w)) (w_monotonic w)"

text \<open>The task is appended to its queue, new and pending.\<close>

definition took_task :: "string \<Rightarrow> json \<Rightarrow> string \<Rightarrow> world \<Rightarrow> world \<Rightarrow> bool" where
  "took_task q p tid w w' \<longleftrightarrow>
     (\<exists>now. queue_of (bk_qm (w_broker w')) q = queue_of (bk_qm (w_broker w)) q @ [new_task tid q p now]) \<and>
     (\<forall>q'. q' \<noteq> q \<longrightarrow> queue_of (bk_qm (w_broker w')) q' = queue_of (bk_qm (w_broker w)) q')"

lemma persist_new_frame [simp]:
  "bk_qm (persist_new now q tid b) = bk_qm b" "bk_ls (persist_new now q tid b) = bk_ls b"
  "bk_wr (persist_new now q tid b) = bk_wr b"
  by (simp_all add: persist_new_def split: option.split)

lemma dispatch_produce:
  "dispatch e (produce_message q p) b =
     handle_produce e [(''command'', JStr ''PRODUCE''), (''queue'', JStr q), (''task'', p)] b"
  by (simp add: dispatch_def produce_message_def handlers_def dict_get_or_def)

text \<open>One PRODUCE request, as the client reads its answer.\<close>

lemma produce_request:
  assumes "q \<noteq> []" and "p \<noteq> JNull"
    and shed: "check_and_consume (w_monotonic w) (queue_depth (bk_qm (w_broker w)))
            (average_latency_ms (bk_wr (w_broker w))) q (bk_ls (w_broker w)) = ((allowed, r), ls)"
  shows "\<exists>j w1. broker_link ids (produce_message q p) w = (Inr j, w1) \<and>
     (if allowed then read_answer j = Accepted (ids (w_next w)) \<and> took_task q p (ids (w_next w)) w w1
      else read_answer j = Back_off (Some r) \<and> w1 = w\<lparr>w_broker := (w_broker w)\<lparr>bk_ls := ls\<rparr>, w_next := Suc (w_next w)\<rparr>)"
  using assms
  by (auto simp: broker_link_def dispatch_produce handle_produce_def dict_get_or_def env_of_def enqueue_eq
      Let_def read_answer_def accepted_answer_def limited_answer_def took_task_def)

lemma broker_answers:
  assumes "world_ok w" and "q \<noteq> []" and "p \<noteq> JNull"
  shows "(\<exists>j w1 tid. broker_link ids (produce_message q p) w = (Inr j, w1) \<and> read_answer j = Accepted tid \<and>
            took_task q p tid w w1) \<or>
    (\<exists>j w1 r. broker_link ids (produce_message q p) w = (Inr j, w1) \<and> read_answer j = Back_off (Some r) \<and>
       (\<forall>d \<ge> r. \<exists>j' w2 tid. broker_link ids (produce_message q p) (pass_time d w1) = (Inr j', w2) \<and>
          read_answer j' = Accepted tid \<and> took_task q p tid w w2))"
proof -
  let ?b = "w_broker w"
  let ?depth = "queue_depth (bk_qm ?b)" and ?lat = "average_latency_ms (bk_wr ?b)"
  obtain allowed r ls where
    shed: "check_and_consume (w_monotonic w) ?depth ?lat q (bk_ls ?b) = ((allowed, r), ls)"
    by (metis prod.exhaust)
  from produce_request [OF assms(2,3) shed, of ids] show ?thesis
  proof (cases allowed)
    case True
    with produce_request [OF assms(2,3) shed, of ids] show ?thesis by auto
  next
    case False
    let ?w1 = "w\<lparr>w_broker := ?b\<lparr>bk_ls := ls\<rparr>, w_next := Suc (w_next w)\<rparr>"
    obtain j where first: "broker_link ids (produce_message q p) w = (Inr j, ?w1)" "read_answer j = Back_off (Some r)"
      using produce_request [OF assms(2,3) shed, of ids] False by auto
    have again: "\<exists>j' w2 tid. broker_link ids (produce_message q p) (pass_time d ?w1) = (Inr j', w2) \<and>
        read_answer j' = Accepted tid \<and> took_task q p tid w w2" if "r \<le> d" for d
    proof -
      have "fst (check_and_consume (w_monotonic w + d) ?depth ?lat q ls) = (True, 0)"
        using rejected_then_admitted [of "bk_ls ?b" "w_monotonic w" ?depth ?lat q r ls "w_monotonic w + d"]
          assms(1) shed False that by (simp add: world_ok_def)
      then obtain ls' where "check_and_consume (w_monotonic (pass_time d ?w1)) (queue_depth (bk_qm (w_broker (pass_time d ?w1))))
          (average_latency_ms (bk_wr (w_broker (pass_time d ?w1)))) q (bk_ls (w_broker (pass_time d ?w1))) = ((True, 0), ls')"
        by (cases "check_and_consume (w_monotonic w + d) ?depth ?lat q ls") (simp add: pass_time_def)
      from produce_request [OF assms(2,3) this, of ids] show ?thesis
        by (auto simp: took_task_def pass_time_def)
    qed
    with first show ?thesis by blast
  qed
qed

interpretation lone: shedding_broker "broker_link ids" pass_time world_ok took_task for ids
  by unfold_locales (rule broker_answers)

section \<open>Properties\<close>

text \<open>
  C8. A lone producer always gets through. A connected client that produces a task on a named
  queue of a broker whose load shedder is in a well-formed state, with at least one retry
  allowed and nobody else talking to the broker meanwhile, gets a task identifier back, however
  empty the token bucket is and whatever the random draws are; the task then is the last of its
  queue, pending, with its payload, and no other queue has changed.
\<close>

theorem lone_producer_succeeds:
  assumes "world_ok w" and "q \<noteq> []" and "p \<noteq> JNull" and "pc_connected pc" and "1 \<le> retries"
  shows "\<exists>tid w'. produce (broker_link ids) pass_time rnd pc q p retries w = (Inr tid, w') \<and>
           took_task q p tid w w'"
  by (rule lone.produce_succeeds [OF assms])

theorem lone_producer_succeeds_witness:
  "\<exists>tid w'. produce (broker_link (\<lambda>n. replicate n CHR ''x'')) pass_time (\<lambda>_. 0)
      ((pc_init ''h'' 1)\<lparr>pc_connected := True\<rparr>) ''q'' (JInt 5) 10
      \<lparr>w_broker = (bk_init 0 None)\<lparr>bk_ls := drained_shedder\<rparr>, w_time = 0, w_monotonic = 0, w_next = 0\<rparr> = (Inr tid, w')"
proof -
  let ?w = "\<lparr>w_broker = (bk_init 0 None)\<lparr>bk_ls := drained_shedder\<rparr>, w_time = 0, w_monotonic = 0, w_next = 0\<rparr>"
  have "world_ok ?w" by (simp add: world_ok_def drained_shedder_ok)
  then show ?thesis
    using lone_producer_succeeds [of ?w "''q''" "JInt 5" "(pc_init ''h'' 1)\<lparr>pc_connected := True\<rparr>" 10
        "\<lambda>n. replicate n CHR ''x''" "\<lambda>_. 0"] by auto
qed

end
