(* ===== verification/Base_Worker.thy ===== *)
theory Base_Worker
  imports Prelude
begin

text \<open>
  \<open>BaseWorker\<close> of \<open>worker/base_worker.py\<close>: registration, the exchange of one message, the
  heartbeat loop and the consume loop. As for the producer, the transport is an argument
  \<open>link\<close> that sends one message into a world and returns the answer or raises; \<open>_conn_lock\<close>
  makes an exchange atomic, so heartbeats of the same worker fall between exchanges and are
  part of what the world does. The method \<open>execute\<close> of the subclass is the argument \<open>exec\<close>,
  \<open>asyncio.sleep\<close> is \<open>sleep\<close>, and \<open>str\<close> of an exception is \<open>str_of\<close>. Cancellation of the task
  from outside is not modelled.
\<close>

section \<open>State\<close>

record worker =
  bw_queue_name :: string
  bw_host :: string
  bw_port :: int
  bw_poll_interval :: time
  bw_heartbeat_interval :: time
  bw_worker_id :: string
  bw_connected :: bool
  bw_tasks_completed :: nat
  bw_tasks_failed :: nat
  bw_running :: bool

text \<open>\<open>worker_id or str(uuid.uuid4())\<close>: an absent or empty name is replaced by the drawn one.\<close>

definition bw_init :: "string \<Rightarrow> string \<Rightarrow> int \<Rightarrow> time \<Rightarrow> time \<Rightarrow> string option \<Rightarrow> string \<Rightarrow> worker" where
  "bw_init q host port poll beat wid uuid =
     \<lparr>bw_queue_name = q, bw_host = host, bw_port = port, bw_poll_interval = poll,
      bw_heartbeat_interval = beat,
      bw_worker_id = (case wid of None \<Rightarrow> uuid | Some w \<Rightarrow> if w = [] then uuid else w),
      bw_connected = False, bw_tasks_completed = 0, bw_tasks_failed = 0, bw_running = False\<rparr>"

section \<open>Messages\<close>

definition register_message :: "worker \<Rightarrow> json" where
  "register_message bw =
     JDict [(''command'', JStr ''REGISTER''), (''worker_id'', JStr (bw_worker_id bw)),
            (''queues'', JList [JStr (bw_queue_name bw)])]"

definition heartbeat_message :: "worker \<Rightarrow> json" where
  "heartbeat_message bw =
     JDict [(''command'', JStr ''HEARTBEAT''), (''worker_id'', JStr (bw_worker_id bw))]"

definition consume_message :: "worker \<Rightarrow> json" where
  "consume_message bw =
     JDict [(''command'', JStr ''CONSUME''), (''queue'', JStr (bw_queue_name bw)),
            (''worker_id'', JStr (bw_worker_id bw))]"

definition ack_message :: "worker \<Rightarrow> string \<Rightarrow> json" where
  "ack_message bw tid =
     JDict [(''command'', JStr ''ACK''), (''task_id'', JStr tid), (''queue'', JStr (bw_queue_name bw)),
            (''worker_id'', JStr (bw_worker_id bw))]"

definition nack_message :: "worker \<Rightarrow> string \<Rightarrow> string \<Rightarrow> json" where
  "nack_message bw tid why =
     JDict [(''command'', JStr ''NACK''), (''task_id'', JStr tid), (''queue'', JStr (bw_queue_name bw)),
            (''worker_id'', JStr (bw_worker_id bw)), (''error'', JStr why)]"

section \<open>Connection\<close>

definition bw_send :: "(json \<Rightarrow> 'w \<Rightarrow> (exn + json) \<times> 'w) \<Rightarrow> worker \<Rightarrow> json \<Rightarrow> 'w \<Rightarrow> (exn + json) \<times> 'w" where
  "bw_send link bw msg w =
     (if \<not> bw_connected bw then (Inl (ConnectionError ''Not connected to broker''), w) else link msg w)"

text \<open>\<open>asyncio.open_connection\<close> is the argument \<open>opened\<close>: whether the connection is accepted.\<close>

definition bw_connect ::
  "(json \<Rightarrow> 'w \<Rightarrow> (exn + json) \<times> 'w) \<Rightarrow> bool \<Rightarrow> worker \<Rightarrow> 'w \<Rightarrow> (exn + unit) \<times> worker \<times> 'w" where
  "bw_connect link opened bw w =
     (if \<not> opened then (Inl (ConnectionError ''refused''), bw, w)
      else
        (let bw1 = bw\<lparr>bw_connected := True\<rparr>
         in case bw_send link bw1 (register_message bw1) w of
              (Inl x, w1) \<Rightarrow> (Inl x, bw1, w1)
            | (Inr r, w1) \<Rightarrow>
                (case r of
                   JDict d \<Rightarrow>
                     if jget d ''status'' = JStr ''ok'' then (Inr (), bw1, w1)
                     else (Inl (RuntimeError ''Worker registration failed''), bw1, w1)
                 | _ \<Rightarrow> (Inl AttributeError, bw1, w1))))"

definition bw_close :: "worker \<Rightarrow> worker" where
  "bw_close bw = (if bw_connected bw then bw\<lparr>bw_connected := False\<rparr> else bw)"

definition bw_shutdown :: "worker \<Rightarrow> worker" where
  "bw_shutdown bw = bw\<lparr>bw_running := False\<rparr>"

section \<open>Heartbeats\<close>

text \<open>\<open>_heartbeat_loop\<close>: at each wake-up, whether \<open>shutdown\<close> has been called during the sleep.
  The answer is only logged, and so is every exception.\<close>

fun heartbeat_loop ::
  "(json \<Rightarrow> 'w \<Rightarrow> (exn + json) \<times> 'w) \<Rightarrow> (time \<Rightarrow> 'w \<Rightarrow> 'w) \<Rightarrow> bool list \<Rightarrow> worker \<Rightarrow> 'w \<Rightarrow> worker \<times> 'w" where
  "heartbeat_loop link sleep [] bw w = (bw, w)"
| "heartbeat_loop link sleep (stop # stops) bw w =
     (if \<not> bw_running bw then (bw, w)
      else
        (let w1 = sleep (bw_heartbeat_interval bw) w;
             bw1 = (if stop then bw_shutdown bw else bw)
         in if \<not> bw_running bw1 then (bw1, w1)
            else heartbeat_loop link sleep stops bw1 (snd (bw_send link bw1 (heartbeat_message bw1) w1))))"

section \<open>The consume loop\<close>

text \<open>The task of an answer with status \<open>ok\<close>: its identifier and the whole dictionary, whose
  \<open>payload\<close> is read inside the \<open>try\<close> block.\<close>

definition read_task :: "(string \<times> json) list \<Rightarrow> exn + string \<times> (string \<times> json) list" where
  "read_task d =
     (case dict_get d ''task'' of
        None \<Rightarrow> Inl KeyError
      | Some (JDict t) \<Rightarrow>
          (case dict_get t ''task_id'' of
             None \<Rightarrow> Inl KeyError
           | Some (JStr tid) \<Rightarrow> Inr (tid, t)
           | Some _ \<Rightarrow> Inl (IllTyped ''task_id''))
      | Some _ \<Rightarrow> Inl TypeError)"

text \<open>The \<open>try\<close> block: read the payload, execute it, acknowledge.\<close>

definition execute_and_ack ::
  "(json \<Rightarrow> 'w \<Rightarrow> (exn + json) \<times> 'w) \<Rightarrow> (json \<Rightarrow> 'w \<Rightarrow> (exn + json) \<times> 'w) \<Rightarrow> worker \<Rightarrow>
   string \<Rightarrow> (string \<times> json) list \<Rightarrow> 'w \<Rightarrow> exn option \<times> 'w" where
  "execute_and_ack exec link bw tid t w =
     (case dict_get t ''payload'' of
        None \<Rightarrow> (Some KeyError, w)
      | Some p \<Rightarrow>
          (case exec p w of
             (Inl x, w1) \<Rightarrow> (Some x, w1)
           | (Inr _, w1) \<Rightarrow>
               (case bw_send link bw (ack_message bw tid) w1 of
                  (Inl x, w2) \<Rightarrow> (Some x, w2)
                | (Inr _, w2) \<Rightarrow> (None, w2))))"

text \<open>One iteration: the exception it ends with, if any, and the state after it. The answers
  \<open>empty\<close> and anything else but \<open>ok\<close> (which is also logged) both end in a pause.\<close>

definition run_round ::
  "(json \<Rightarrow> 'w \<Rightarrow> (exn + json) \<times> 'w) \<Rightarrow> (json \<Rightarrow> 'w \<Rightarrow> (exn + json) \<times> 'w) \<Rightarrow> (time \<Rightarrow> 'w \<Rightarrow> 'w) \<Rightarrow>
   (exn \<Rightarrow> string) \<Rightarrow> worker \<Rightarrow> 'w \<Rightarrow> exn option \<times> worker \<times> 'w" where
  "run_round exec link sleep str_of bw w =
     (case bw_send link bw (consume_message bw) w of
        (Inl x, w1) \<Rightarrow> (Some x, bw, w1)
      | (Inr (JDict d), w1) \<Rightarrow>
          (case dict_get d ''status'' of
             None \<Rightarrow> (Some KeyError, bw, w1)
           | Some s \<Rightarrow>
               if s \<noteq> JStr ''ok'' then (None, bw, sleep (bw_poll_interval bw) w1)
               else case read_task d of
                 Inl x \<Rightarrow> (Some x, bw, w1)
               | Inr (tid, t) \<Rightarrow>
                   (case execute_and_ack exec link bw tid t w1 of
                      (None, w2) \<Rightarrow>
                        (None, bw\<lparr>bw_tasks_completed := Suc (bw_tasks_completed bw)\<rparr>, sleep 0 w2)
                    | (Some x, w2) \<Rightarrow>
                        (case bw_send link bw (nack_message bw tid (str_of x)) w2 of
                           (Inl y, w3) \<Rightarrow> (Some y, bw, w3)
                         | (Inr _, w3) \<Rightarrow>
                             (None, bw\<lparr>bw_tasks_failed := Suc (bw_tasks_failed bw)\<rparr>, sleep 0 w3))))
      | (Inr _, w1) \<Rightarrow> (Some TypeError, bw, w1))"

text \<open>\<open>while self._running\<close>, over a finite observation: for each test of the loop condition,
  whether \<open>shutdown\<close> has been called before it. \<open>Ongoing\<close>: the loop is about to go on when the
  observation ends.\<close>

datatype run_end = Stopped | Raised exn | Ongoing

fun run_loop ::
  "(json \<Rightarrow> 'w \<Rightarrow> (exn + json) \<times> 'w) \<Rightarrow> (json \<Rightarrow> 'w \<Rightarrow> (exn + json) \<times> 'w) \<Rightarrow> (time \<Rightarrow> 'w \<Rightarrow> 'w) \<Rightarrow>
   (exn \<Rightarrow> string) \<Rightarrow> bool list \<Rightarrow> worker \<Rightarrow> 'w \<Rightarrow> run_end \<times> worker \<times> 'w" where
  "run_loop exec link sleep str_of [] bw w = (Ongoing, bw, w)"
| "run_loop exec link sleep str_of (stop # stops) bw w =
     (let bw1 = (if stop then bw_shutdown bw else bw)
      in if \<not> bw_running bw1 then (Stopped, bw1, w)
         else case run_round exec link sleep str_of bw1 w of
           (Some x, bw2, w1) \<Rightarrow> (Raised x, bw2, w1)
         | (None, bw2, w1) \<Rightarrow> run_loop exec link sleep str_of stops bw2 w1)"

definition bw_run ::
  "(json \<Rightarrow> 'w \<Rightarrow> (exn + json) \<times> 'w) \<Rightarrow> (json \<Rightarrow> 'w \<Rightarrow> (exn + json) \<times> 'w) \<Rightarrow> (time \<Rightarrow> 'w \<Rightarrow> 'w) \<Rightarrow>
   (exn \<Rightarrow> string) \<Rightarrow> bool \<Rightarrow> bool list \<Rightarrow> worker \<Rightarrow> 'w \<Rightarrow> run_end \<times> worker \<times> 'w" where
  "bw_run exec link sleep str_of opened stops bw w =
     (case bw_connect link opened bw w of
        (Inl x, bw1, w1) \<Rightarrow> (Raised x, bw1, w1)
      | (Inr _, bw1, w1) \<Rightarrow>
          (case run_loop exec link sleep str_of stops (bw1\<lparr>bw_running := True\<rparr>) w1 of
             (Ongoing, bw2, w2) \<Rightarrow> (Ongoing, bw2, w2)
           | (e, bw2, w2) \<Rightarrow> (e, bw_close (bw2\<lparr>bw_running := False\<rparr>), w2)))"

definition bw_get_stats :: "worker \<Rightarrow> (string \<times> json) list" where
  "bw_get_stats bw =
     [(''worker_id'', JStr (bw_worker_id bw)), (''queue_name'', JStr (bw_queue_name bw)),
      (''connected'', JBool (bw_connected bw)), (''running'', JBool (bw_running bw)),
      (''tasks_completed'', JInt (int (bw_tasks_completed bw))),
      (''tasks_failed'', JInt (int (bw_tasks_failed bw)))]"

section \<open>What a worker needs of its broker\<close>

text \<open>Recording the payloads that are executed, in order: the world gets a log beside it, and an
  execution raises exactly on the payloads marked \<open>bad\<close>.\<close>

definition traced :: "(json \<Rightarrow> 'w \<Rightarrow> (exn + json) \<times> 'w) \<Rightarrow> json \<Rightarrow> 'w \<times> json list \<Rightarrow> (exn + json) \<times> ('w \<times> json list)" where
  "traced link msg s = (case link msg (fst s) of (r, w) \<Rightarrow> (r, (w, snd s)))"

definition traced_sleep :: "(time \<Rightarrow> 'w \<Rightarrow> 'w) \<Rightarrow> time \<Rightarrow> 'w \<times> json list \<Rightarrow> 'w \<times> json list" where
  "traced_sleep sleep d s = (sleep d (fst s), snd s)"

definition traced_exec :: "(json \<Rightarrow> bool) \<Rightarrow> json \<Rightarrow> 'w \<times> json list \<Rightarrow> (exn + json) \<times> ('w \<times> json list)" where
  "traced_exec bad p s =
     (if bad p then Inl (RuntimeError ''failed'') else Inr JNull, (fst s, snd s @ [p]))"

text \<open>A waiting task as the worker sees it: identifier, payload and deliveries so far. A task
  that always fails is executed until its deliveries reach the limit, at least once.\<close>

type_synonym job = "string \<times> json \<times> int"

definition runs :: "(json \<Rightarrow> bool) \<Rightarrow> int \<Rightarrow> job \<Rightarrow> nat" where
  "runs bad limit job =
     (case job of (tid, p, n) \<Rightarrow> if bad p then nat (max 1 (limit - n)) else 1)"

lemma runs_Cons:
  "runs bad limit (tid, p, n) =
     (if bad p \<and> n + 1 < limit then Suc (runs bad limit (tid, p, n + 1)) else 1)"
  by (auto simp: runs_def max_def nat_eq_iff)

abbreviation job_bad :: "(json \<Rightarrow> bool) \<Rightarrow> job \<Rightarrow> bool" where
  "job_bad bad job \<equiv> bad (fst (snd job))"

text \<open>
  The contract of a broker towards a lone worker \<open>bw\<close> on its queue: an empty queue is reported as
  such; otherwise the first job is handed out, and an acknowledgement completes it while a
  negative acknowledgement puts it back in front with one delivery more, or buries it when the
  limit is reached.
\<close>

locale work_source =
  fixes link :: "json \<Rightarrow> 'w \<Rightarrow> (exn + json) \<times> 'w"
    and sleep :: "time \<Rightarrow> 'w \<Rightarrow> 'w"
    and ok :: "worker \<Rightarrow> 'w \<Rightarrow> bool"
    and todo :: "worker \<Rightarrow> 'w \<Rightarrow> job list"
    and completed :: "'w \<Rightarrow> string set"
    and buried :: "'w \<Rightarrow> string set"
    and limit :: int
  assumes delivers: "ok bw w \<Longrightarrow> todo bw w = (tid, p, n) # ts \<Longrightarrow>
      \<exists>d t w1. link (consume_message bw) w = (Inr (JDict d), w1) \<and> dict_get d ''status'' = Some (JStr ''ok'') \<and>
        read_task d = Inr (tid, t) \<and> dict_get t ''payload'' = Some p \<and>
        (\<exists>r w2. link (ack_message bw tid) w1 = (Inr r, w2) \<and> ok bw w2 \<and> todo bw w2 = ts \<and>
           completed w2 = insert tid (completed w) \<and> buried w2 = buried w) \<and>
        (\<forall>why. \<exists>r w2. link (nack_message bw tid why) w1 = (Inr r, w2) \<and> ok bw w2 \<and> completed w2 = completed w \<and>
           (if n + 1 < limit then todo bw w2 = (tid, p, n + 1) # ts \<and> buried w2 = buried w
            else todo bw w2 = ts \<and> buried w2 = insert tid (buried w)))"
    and sleeps: "ok bw w \<Longrightarrow> ok bw (sleep d w) \<and> todo bw (sleep d w) = todo bw w \<and>
        completed (sleep d w) = completed w \<and> buried (sleep d w) = buried w"
    and counters: "ok (bw\<lparr>bw_tasks_completed := i, bw_tasks_failed := j\<rparr>) w = ok bw w"
      "todo (bw\<lparr>bw_tasks_completed := i, bw_tasks_failed := j\<rparr>) w = todo bw w"
begin

lemma counters_one:
  "ok (bw\<lparr>bw_tasks_completed := i\<rparr>) w = ok bw w" "todo (bw\<lparr>bw_tasks_completed := i\<rparr>) w = todo bw w"
  "ok (bw\<lparr>bw_tasks_failed := i\<rparr>) w = ok bw w" "todo (bw\<lparr>bw_tasks_failed := i\<rparr>) w = todo bw w"
  using counters [where bw = bw and i = i and j = "bw_tasks_failed bw" and w = w]
    counters [where bw = bw and i = "bw_tasks_completed bw" and j = i and w = w] by simp_all

lemma round_good:
  assumes "ok bw w" and "bw_connected bw" and "todo bw w = (tid, p, n) # ts" and "\<not> bad p"
  shows "\<exists>w'. run_round (traced_exec bad) (traced link) (traced_sleep sleep) str_of bw (w, tr) =
           (None, bw\<lparr>bw_tasks_completed := Suc (bw_tasks_completed bw)\<rparr>, (w', tr @ [p])) \<and>
         ok bw w' \<and> todo bw w' = ts \<and> completed w' = insert tid (completed w) \<and> buried w' = buried w"
proof -
  obtain d t w1 r w2 where "link (consume_message bw) w = (Inr (JDict d), w1)"
    "dict_get d ''status'' = Some (JStr ''ok'')" "read_task d = Inr (tid, t)" "dict_get t ''payload'' = Some p"
    "link (ack_message bw tid) w1 = (Inr r, w2)"
    and fin: "ok bw w2" "todo bw w2 = ts" "completed w2 = insert tid (completed w)" "buried w2 = buried w"
    using delivers [OF assms(1,3)] by blast
  then show ?thesis
    using assms(2,4) sleeps [OF fin(1), of 0]
    by (simp add: run_round_def bw_send_def traced_def execute_and_ack_def traced_exec_def traced_sleep_def)
qed

lemma round_bad:
  assumes "ok bw w" and "bw_connected bw" and "todo bw w = (tid, p, n) # ts" and "bad p"
  shows "\<exists>w'. run_round (traced_exec bad) (traced link) (traced_sleep sleep) str_of bw (w, tr) =
           (None, bw\<lparr>bw_tasks_failed := Suc (bw_tasks_failed bw)\<rparr>, (w', tr @ [p])) \<and>
         ok bw w' \<and> completed w' = completed w \<and>
         (if n + 1 < limit then todo bw w' = (tid, p, n + 1) # ts \<and> buried w' = buried w
          else todo bw w' = ts \<and> buried w' = insert tid (buried w))"
proof -
  obtain d t w1 where first: "link (consume_message bw) w = (Inr (JDict d), w1)"
    "dict_get d ''status'' = Some (JStr ''ok'')" "read_task d = Inr (tid, t)" "dict_get t ''payload'' = Some p"
    and nack: "\<And>why. \<exists>r w2. link (nack_message bw tid why) w1 = (Inr r, w2) \<and> ok bw w2 \<and> completed w2 = completed w \<and>
           (if n + 1 < limit then todo bw w2 = (tid, p, n + 1) # ts \<and> buried w2 = buried w
            else todo bw w2 = ts \<and> buried w2 = insert tid (buried w))"
    using delivers [OF assms(1,3)] by blast
  obtain r w2 where second: "link (nack_message bw tid (str_of (RuntimeError ''failed''))) w1 = (Inr r, w2)"
    and fin: "ok bw w2" "completed w2 = completed w"
      "if n + 1 < limit then todo bw w2 = (tid, p, n + 1) # ts \<and> buried w2 = buried w
       else todo bw w2 = ts \<and> buried w2 = insert tid (buried w)"
    using nack by blast
  from first second fin(2,3) show ?thesis
    using assms(2,4) sleeps [OF fin(1), of 0]
    by (simp add: run_round_def bw_send_def traced_def execute_and_ack_def traced_exec_def traced_sleep_def)
qed

lemma drains:
  assumes "ok bw w" and "bw_connected bw" and "bw_running bw"
    and "N = sum_list (map (runs bad limit) (todo bw w))"
  shows "\<exists>w'. run_loop (traced_exec bad) (traced link) (traced_sleep sleep) str_of (replicate N False) bw (w, tr) =
      (Ongoing,
       bw\<lparr>bw_tasks_completed := bw_tasks_completed bw + length (filter (\<lambda>j. \<not> job_bad bad j) (todo bw w)),
          bw_tasks_failed := bw_tasks_failed bw + sum_list (map (runs bad limit) (filter (job_bad bad) (todo bw w)))\<rparr>,
       (w', tr @ concat (map (\<lambda>j. replicate (runs bad limit j) (fst (snd j))) (todo bw w)))) \<and>
    ok bw w' \<and> todo bw w' = [] \<and>
    completed w' = completed w \<union> set (map fst (filter (\<lambda>j. \<not> job_bad bad j) (todo bw w))) \<and>
    buried w' = buried w \<union> set (map fst (filter (job_bad bad) (todo bw w)))"
  using assms
proof (induction N arbitrary: bw w tr)
  case 0
  then have "todo bw w = []" by (cases "todo bw w") (auto simp: runs_def split: if_splits)
  then show ?case using 0 by simp
next
  case (Suc N)
  then obtain tid p n ts where todo: "todo bw w = (tid, p, n) # ts"
    by (cases "todo bw w") (auto simp: runs_def)
  let ?bw = "bw\<lparr>bw_tasks_completed := Suc (bw_tasks_completed bw)\<rparr>"
  let ?bf = "bw\<lparr>bw_tasks_failed := Suc (bw_tasks_failed bw)\<rparr>"
  show ?case
  proof (cases "bad p")
    case False
    obtain w1 where w1: "run_round (traced_exec bad) (traced link) (traced_sleep sleep) str_of bw (w, tr) =
        (None, ?bw, (w1, tr @ [p]))" "ok bw w1" "todo bw w1 = ts"
      "completed w1 = insert tid (completed w)" "buried w1 = buried w"
      using round_good [where bad = bad and tr = tr and str_of = str_of, OF Suc.prems(1,2) todo False] by blast
    have "N = sum_list (map (runs bad limit) (todo ?bw w1))"
      using Suc.prems(4) todo w1(3) False by (simp add: counters_one runs_Cons)
    from Suc.IH [OF _ _ _ this, of "tr @ [p]"] show ?thesis
      using w1 Suc.prems(2,3) todo False by (auto simp: counters_one Let_def runs_Cons simp del: set_filter)
  next
    case True
    obtain w1 where w1: "run_round (traced_exec bad) (traced link) (traced_sleep sleep) str_of bw (w, tr) =
        (None, ?bf, (w1, tr @ [p]))" "ok bw w1" "completed w1 = completed w"
      "if n + 1 < limit then todo bw w1 = (tid, p, n + 1) # ts \<and> buried w1 = buried w
       else todo bw w1 = ts \<and> buried w1 = insert tid (buried w)"
      using round_bad [where bad = bad and tr = tr and str_of = str_of, OF Suc.prems(1,2) todo True] by blast
    have "N = sum_list (map (runs bad limit) (todo ?bf w1))"
      using Suc.prems(4) todo w1(4) True by (auto simp: counters_one runs_Cons split: if_splits)
    from Suc.IH [OF _ _ _ this, of "tr @ [p]"] show ?thesis
      using w1 Suc.prems(2,3) todo True
      by (auto simp: counters_one Let_def runs_Cons [of bad limit tid p n] simp del: set_filter split: if_splits)
  qed
qed

end

end
