(* ===== verification/Worker_Run.thy ===== *)
theory Worker_Run
  imports End_To_End Base_Worker
begin

text \<open>
  The base worker against the broker model, in the world of theory \<open>End_To_End\<close>: one exchange is
  one dispatch. The broker meets the contract \<open>work_source\<close>, so a lone worker empties its queue;
  and a worker that keeps sending heartbeats stays registered whatever the other clients do.
\<close>

section \<open>The broker as a source of work\<close>

definition source_ok :: "int \<Rightarrow> worker \<Rightarrow> world \<Rightarrow> bool" where
  "source_ok r bw w \<longleftrightarrow>
     qm_ok (bk_qm (w_broker w)) \<and> max_retries (bk_qm (w_broker w)) = r \<and>
     bw_queue_name bw \<noteq> [] \<and> bw_queue_name bw \<noteq> ''*'' \<and> bw_worker_id bw \<noteq> [] \<and>
     (\<forall>t \<in> set (queue_of (bk_qm (w_broker w)) (bw_queue_name bw)). task_id t \<noteq> [])"

definition jobs :: "worker \<Rightarrow> world \<Rightarrow> job list" where
  "jobs bw w =
     map (\<lambda>t. (task_id t, payload t, attempts t)) (queue_of (bk_qm (w_broker w)) (bw_queue_name bw))"

definition completed_ids :: "world \<Rightarrow> string set" where
  "completed_ids w = set (dict_keys (qm_completed (bk_qm (w_broker w))))"

definition buried_ids :: "world \<Rightarrow> string set" where
  "buried_ids w = set (dict_keys (dlq_tasks (qm_dlq (bk_qm (w_broker w)))))"

lemma dequeue_takes:
  assumes "q \<noteq> ''*''" and "queue_of qm q = t # ts"
  shows "\<exists>qm1. dequeue q w qm = (Some (view_of (take_in_flight w t)), qm1) \<and>
    dict_get (qm_in_flight qm1) (task_id t) = Some (take_in_flight w t) \<and> queue_of qm1 q = ts \<and>
    qm_completed qm1 = qm_completed qm \<and> qm_dlq qm1 = qm_dlq qm \<and> max_retries qm1 = max_retries qm"
  using assms by (simp add: dequeue_def pop_task_def Let_def ensure_queue_id take_in_flight_def)

lemma consume_exchange:
  assumes "bw_queue_name bw \<noteq> []" and "bw_worker_id bw \<noteq> []"
    and "dequeue (bw_queue_name bw) (JStr (bw_worker_id bw)) (bk_qm (w_broker w)) = (Some v, qm1)"
  shows "\<exists>w1. broker_link ids (consume_message bw) w =
      (Inr (JDict [(''status'', JStr ''ok''), (''task'', task_view_json v)]), w1) \<and> bk_qm (w_broker w1) = qm1"
  using assms
  by (simp add: broker_link_def consume_message_def dispatch_def handlers_def handle_consume_def dict_get_or_def Let_def
      with_wal_def)

lemma ack_exchange:
  assumes "tid \<noteq> []" and "acknowledge tid (bk_qm (w_broker w)) = (True, qm1)"
  shows "\<exists>r w1. broker_link ids (ack_message bw tid) w = (Inr r, w1) \<and> bk_qm (w_broker w1) = qm1"
  using assms
  by (simp add: broker_link_def ack_message_def dispatch_def handlers_def handle_ack_def dict_get_or_def Let_def
      complete_task_field_def with_wal_def)

lemma nack_exchange:
  assumes "tid \<noteq> []" and "negative_acknowledge (w_time w) tid (bk_qm (w_broker w)) = (Some r, qm1)"
  shows "\<exists>r w1. broker_link ids (nack_message bw tid why) w = (Inr r, w1) \<and> bk_qm (w_broker w1) = qm1"
  using assms
  by (cases r) (simp_all add: broker_link_def nack_message_def dispatch_def handlers_def handle_nack_def dict_get_or_def Let_def
      complete_task_field_def with_wal_def env_of_def)

lemma nack_of_flying:
  assumes "dict_get (qm_in_flight qm) tid = Some t" and "status t = InFlight"
  shows "\<exists>a qm'. negative_acknowledge now tid qm = (Some a, qm') \<and> qm_completed qm' = qm_completed qm \<and>
    max_retries qm' = max_retries qm \<and>
    (if attempts t < max_retries qm
     then queue_of qm' (queue_name t) = t\<lparr>status := Pending, assigned_worker := None\<rparr> # queue_of qm (queue_name t) \<and>
          qm_dlq qm' = qm_dlq qm
     else queue_of qm' (queue_name t) = queue_of qm (queue_name t) \<and>
          qm_dlq qm' = dlq_add now (t\<lparr>status := DeadLettered\<rparr>) (qm_dlq qm))"
  using assms
  by (cases "attempts t < max_retries qm")
    (simp_all add: negative_acknowledge_def nack_take_def nack_finish_eq requeue_eq Let_def)

text \<open>The three exchanges of a round, on the abstract view of the world.\<close>

lemma source_consume:
  assumes ok: "source_ok r bw w" and todo: "jobs bw w = (tid, p, n) # ts"
  shows "\<exists>d t f w1. broker_link ids (consume_message bw) w = (Inr (JDict d), w1) \<and>
      dict_get d ''status'' = Some (JStr ''ok'') \<and> read_task d = Inr (tid, t) \<and> dict_get t ''payload'' = Some p \<and>
      source_ok r bw w1 \<and> jobs bw w1 = ts \<and> completed_ids w1 = completed_ids w \<and> buried_ids w1 = buried_ids w \<and>
      tid \<noteq> [] \<and> dict_get (qm_in_flight (bk_qm (w_broker w1))) tid = Some f \<and> status f = InFlight \<and>
      task_id f = tid \<and> payload f = p \<and> attempts f = n + 1 \<and> queue_name f = bw_queue_name bw"
proof -
  let ?q = "bw_queue_name bw" and ?qm = "bk_qm (w_broker w)"
  obtain t qs where queue: "queue_of ?qm ?q = t # qs" and t: "task_id t = tid" "payload t = p" "attempts t = n"
    and ts: "ts = map (\<lambda>t. (task_id t, payload t, attempts t)) qs"
    using todo by (auto simp: jobs_def)
  let ?t = "take_in_flight (JStr (bw_worker_id bw)) t"
  obtain qm1 where deq: "dequeue ?q (JStr (bw_worker_id bw)) ?qm = (Some (view_of ?t), qm1)"
    and fly: "dict_get (qm_in_flight qm1) tid = Some ?t" and qs: "queue_of qm1 ?q = qs"
    and same: "qm_completed qm1 = qm_completed ?qm" "qm_dlq qm1 = qm_dlq ?qm" "max_retries qm1 = r"
    using dequeue_takes [OF _ queue, of "JStr (bw_worker_id bw)"] ok t(1) by (auto simp: source_ok_def)
  have ok1: "qm_ok qm1" using ok deq qm_ok_ops(3) [of ?qm ?q "JStr (bw_worker_id bw)"] by (simp add: source_ok_def)
  have tid: "tid \<noteq> []" and name: "queue_name t = ?q" and ids: "\<forall>t \<in> set qs. task_id t \<noteq> []"
    using ok queue t(1) qm_wf_queue_of [of ?qm t ?q] by (auto simp: source_ok_def qm_ok_def pending_ok_def)
  obtain w1 where link: "broker_link ids (consume_message bw) w =
      (Inr (JDict [(''status'', JStr ''ok''), (''task'', task_view_json (view_of ?t))]), w1)"
    and w1: "bk_qm (w_broker w1) = qm1"
    using consume_exchange [OF _ _ deq, of ids] ok by (auto simp: source_ok_def)
  let ?view = "[(''task_id'', JStr tid), (''queue_name'', JStr ?q), (''payload'', p), (''attempts'', JInt (n + 1))]"
  have view: "task_view_json (view_of ?t) = JDict ?view"
    using t name by (simp add: task_view_json_def view_of_def take_in_flight_def)
  have "read_task [(''status'', JStr ''ok''), (''task'', JDict ?view)] = Inr (tid, ?view)"
    and "dict_get ?view ''payload'' = Some p" by (simp_all add: read_task_def)
  moreover have "source_ok r bw w1" and "jobs bw w1 = ts" and "completed_ids w1 = completed_ids w" and "buried_ids w1 = buried_ids w"
    using ok ok1 w1 qs ids same ts by (simp_all add: source_ok_def jobs_def completed_ids_def buried_ids_def)
  ultimately show ?thesis
    using link [unfolded view] tid fly w1 t name by (fastforce simp: take_in_flight_def)
qed

lemma source_ack:
  assumes "source_ok r bw w" and "tid \<noteq> []" and "dict_get (qm_in_flight (bk_qm (w_broker w))) tid = Some t"
  shows "\<exists>a w1. broker_link ids (ack_message bw tid) w = (Inr a, w1) \<and> source_ok r bw w1 \<and> jobs bw w1 = jobs bw w \<and>
      completed_ids w1 = insert tid (completed_ids w) \<and> buried_ids w1 = buried_ids w"
proof -
  let ?qm = "bk_qm (w_broker w)"
  obtain qm1 where ack: "acknowledge tid ?qm = (True, qm1)" and qm1: "queue_of qm1 = queue_of ?qm"
    "qm_dlq qm1 = qm_dlq ?qm" "max_retries qm1 = max_retries ?qm"
    "qm_completed qm1 = dict_set tid (t\<lparr>status := Done\<rparr>) (qm_completed ?qm)"
    using assms(3) by (simp add: acknowledge_def)
  have "qm_ok qm1" using qm_ok_ops(4) [of ?qm tid] ack assms(1) by (simp add: source_ok_def)
  then show ?thesis
    using ack_exchange [OF assms(2) ack, of ids bw] qm1 assms(1)
    by (auto simp: source_ok_def jobs_def completed_ids_def buried_ids_def dict_keys_set [simplified])
qed

lemma source_nack:
  assumes "source_ok r bw w" and "tid \<noteq> []" and "dict_get (qm_in_flight (bk_qm (w_broker w))) tid = Some t"
    and t: "status t = InFlight" "task_id t = tid" "queue_name t = bw_queue_name bw"
  shows "\<exists>a w1. broker_link ids (nack_message bw tid why) w = (Inr a, w1) \<and> source_ok r bw w1 \<and>
      completed_ids w1 = completed_ids w \<and>
      (if attempts t < r then jobs bw w1 = (tid, payload t, attempts t) # jobs bw w \<and> buried_ids w1 = buried_ids w
       else jobs bw w1 = jobs bw w \<and> buried_ids w1 = insert tid (buried_ids w))"
proof -
  let ?qm = "bk_qm (w_broker w)"
  obtain a qm1 where nack: "negative_acknowledge (w_time w) tid ?qm = (Some a, qm1)"
    and qm1: "qm_completed qm1 = qm_completed ?qm" "max_retries qm1 = max_retries ?qm"
      "if attempts t < max_retries ?qm
       then queue_of qm1 (queue_name t) = t\<lparr>status := Pending, assigned_worker := None\<rparr> # queue_of ?qm (queue_name t) \<and>
            qm_dlq qm1 = qm_dlq ?qm
       else queue_of qm1 (queue_name t) = queue_of ?qm (queue_name t) \<and>
            qm_dlq qm1 = dlq_add (w_time w) (t\<lparr>status := DeadLettered\<rparr>) (qm_dlq ?qm)"
    using nack_of_flying [OF assms(3) t(1)] by blast
  have "qm_ok qm1" using qm_ok_ops(5) [of ?qm "w_time w" tid] nack assms(1) by (simp add: source_ok_def)
  then show ?thesis
    using nack_exchange [OF assms(2) nack, of ids bw why] qm1 assms(1,2) t
    by (auto simp: source_ok_def jobs_def completed_ids_def buried_ids_def dlq_add_def dlq_mark_def dict_keys_set [simplified]
        split: if_splits)
qed

lemma broker_delivers:
  assumes ok: "source_ok r bw w" and todo: "jobs bw w = (tid, p, n) # ts"
  shows "\<exists>d t w1. broker_link ids (consume_message bw) w = (Inr (JDict d), w1) \<and>
      dict_get d ''status'' = Some (JStr ''ok'') \<and> read_task d = Inr (tid, t) \<and> dict_get t ''payload'' = Some p \<and>
      (\<exists>a w2. broker_link ids (ack_message bw tid) w1 = (Inr a, w2) \<and> source_ok r bw w2 \<and> jobs bw w2 = ts \<and>
         completed_ids w2 = insert tid (completed_ids w) \<and> buried_ids w2 = buried_ids w) \<and>
      (\<forall>why. \<exists>a w2. broker_link ids (nack_message bw tid why) w1 = (Inr a, w2) \<and> source_ok r bw w2 \<and>
         completed_ids w2 = completed_ids w \<and>
         (if n + 1 < r then jobs bw w2 = (tid, p, n + 1) # ts \<and> buried_ids w2 = buried_ids w
          else jobs bw w2 = ts \<and> buried_ids w2 = insert tid (buried_ids w)))"
proof -
  obtain d t f w1 where c: "broker_link ids (consume_message bw) w = (Inr (JDict d), w1)"
      "dict_get d ''status'' = Some (JStr ''ok'')" "read_task d = Inr (tid, t)" "dict_get t ''payload'' = Some p"
      "source_ok r bw w1" "jobs bw w1 = ts" "completed_ids w1 = completed_ids w" "buried_ids w1 = buried_ids w" "tid \<noteq> []"
    and f: "dict_get (qm_in_flight (bk_qm (w_broker w1))) tid = Some f" "status f = InFlight"
      "task_id f = tid" "payload f = p" "attempts f = n + 1" "queue_name f = bw_queue_name bw"
    using source_consume [OF ok todo, of ids] by blast
  note ack = source_ack [OF c(5,9) f(1), of ids, unfolded c(6-8)]
  note nack = source_nack [OF c(5,9) f(1-3,6), of ids, unfolded c(6-8) f(4,5)]
  show ?thesis
    by (rule exI [of _ d], rule exI [of _ t], rule exI [of _ w1], intro conjI allI)
      (rule c(1), rule c(2), rule c(3), rule c(4), rule ack, rule nack)
qed

interpretation lone_worker: work_source "broker_link ids" pass_time "source_ok r" jobs completed_ids buried_ids r for ids r
proof (unfold_locales, goal_cases)
  case (1 bw w tid p n ts)
  then show ?case by (rule broker_delivers)
qed (auto simp: pass_time_def source_ok_def jobs_def completed_ids_def buried_ids_def)

section \<open>From connect to shutdown\<close>

lemma run_loop_append:
  "run_loop exec link sleep str_of xs bw w = (Ongoing, bw1, w1) \<Longrightarrow>
     run_loop exec link sleep str_of (xs @ ys) bw w = run_loop exec link sleep str_of ys bw1 w1"
  by (induction xs arbitrary: bw w) (auto simp: Let_def split: if_splits option.splits prod.splits)

lemma register_exchange:
  assumes "bw_worker_id bw \<noteq> []"
  shows "\<exists>d w1. broker_link ids (register_message bw) w = (Inr (JDict d), w1) \<and> jget d ''status'' = JStr ''ok'' \<and>
           bk_qm (w_broker w1) = bk_qm (w_broker w)"
  using assms
  by (simp add: broker_link_def register_message_def dispatch_def handlers_def handle_register_def dict_get_or_def
      queues_field_def case_prod_unfold)

lemma connect_registers:
  assumes "bw_worker_id bw \<noteq> []"
  shows "\<exists>w1. bw_connect (traced (broker_link ids)) True bw (w, tr) = (Inr (), bw\<lparr>bw_connected := True\<rparr>, (w1, tr)) \<and>
           bk_qm (w_broker w1) = bk_qm (w_broker w)"
proof -
  have "bw_worker_id (bw\<lparr>bw_connected := True\<rparr>) \<noteq> []" using assms by simp
  from register_exchange [OF this, of ids w] show ?thesis
    by (auto simp: bw_connect_def bw_send_def traced_def Let_def)
qed

lemma source_same:
  "bk_qm (w_broker w1) = bk_qm (w_broker w) \<Longrightarrow> source_ok r bw w1 = source_ok r bw w"
  "bk_qm (w_broker w1) = bk_qm (w_broker w) \<Longrightarrow> jobs bw w1 = jobs bw w"
  "bk_qm (w_broker w1) = bk_qm (w_broker w) \<Longrightarrow> completed_ids w1 = completed_ids w"
  "bk_qm (w_broker w1) = bk_qm (w_broker w) \<Longrightarrow> buried_ids w1 = buried_ids w"
  by (simp_all add: source_ok_def jobs_def completed_ids_def buried_ids_def)

lemma source_worker [simp]:
  "source_ok r (bw\<lparr>bw_connected := c\<rparr>) w = source_ok r bw w" "jobs (bw\<lparr>bw_connected := c\<rparr>) w = jobs bw w"
  "source_ok r (bw\<lparr>bw_running := c\<rparr>) w = source_ok r bw w" "jobs (bw\<lparr>bw_running := c\<rparr>) w = jobs bw w"
  by (simp_all add: source_ok_def jobs_def)

text \<open>A queue with a good task and one that always fails.\<close>

definition two_tasks :: queue_manager where
  "two_tasks = snd (enqueue ''b'' 0 ''q'' (JInt 2) (snd (enqueue ''a'' 0 ''q'' (JInt 1) (qm_init 3))))"

definition two_tasks_world :: world where
  "two_tasks_world = \<lparr>w_broker = (bk_init 0 None)\<lparr>bk_qm := two_tasks\<rparr>, w_time = 0, w_monotonic = 0, w_next = 0\<rparr>"

definition sample_worker :: worker where
  "sample_worker = bw_init ''q'' ''localhost'' 5555 (1 / 10) 2 None ''w1''"

lemma two_tasks_facts:
  "qm_ok two_tasks" "max_retries two_tasks = 3" "dict_keys (qm_completed two_tasks) = []"
  "dict_keys (dlq_tasks (qm_dlq two_tasks)) = []"
  "queue_of two_tasks ''q'' = [new_task ''a'' ''q'' (JInt 1) 0, new_task ''b'' ''q'' (JInt 2) 0]"
proof -
  show "qm_ok two_tasks" unfolding two_tasks_def by (intro qm_ok_ops qm_ok_init) simp_all
qed (simp_all add: two_tasks_def enqueue_eq qm_init_def dlq_init_def queue_of_def dict_get_or_def put_queue_def)

lemma two_tasks_world_facts:
  "source_ok 3 sample_worker two_tasks_world" "jobs sample_worker two_tasks_world = [(''a'', JInt 1, 0), (''b'', JInt 2, 0)]"
  "completed_ids two_tasks_world = {}" "buried_ids two_tasks_world = {}"
  using two_tasks_facts
  by (simp_all add: source_ok_def jobs_def completed_ids_def buried_ids_def two_tasks_world_def sample_worker_def bw_init_def)

section \<open>Properties\<close>

text \<open>
  C9. A lone worker empties its queue. A worker connects to a broker, registers, polls one named
  queue and is shut down after as many rounds as the waiting tasks need. Whatever the tasks are
  and whichever payloads make \<open>execute\<close> raise: the payloads are executed in queue order, a good
  one exactly once, a bad one once per delivery up to the retry limit before the next task is
  touched; then the queue is empty, exactly the good tasks have been added to the completed
  ones and exactly the bad ones to the dead letters, and both counters of the worker are exact.
\<close>

theorem lone_worker_drains:
  assumes "source_ok r bw w" and "N = sum_list (map (runs bad r) (jobs bw w))"
  shows "\<exists>bw' w'. bw_run (traced_exec bad) (traced (broker_link ids)) (traced_sleep pass_time) str_of True
        (replicate N False @ [True]) bw (w, []) =
        (Stopped, bw', (w', concat (map (\<lambda>j. replicate (runs bad r j) (fst (snd j))) (jobs bw w)))) \<and>
      jobs bw w' = [] \<and>
      completed_ids w' = completed_ids w \<union> set (map fst (filter (\<lambda>j. \<not> job_bad bad j) (jobs bw w))) \<and>
      buried_ids w' = buried_ids w \<union> set (map fst (filter (job_bad bad) (jobs bw w))) \<and>
      bw_tasks_completed bw' = bw_tasks_completed bw + length (filter (\<lambda>j. \<not> job_bad bad j) (jobs bw w)) \<and>
      bw_tasks_failed bw' = bw_tasks_failed bw + sum_list (map (runs bad r) (filter (job_bad bad) (jobs bw w))) \<and>
      \<not> bw_connected bw'"
proof -
  obtain w1 where conn: "bw_connect (traced (broker_link ids)) True bw (w, []) = (Inr (), bw\<lparr>bw_connected := True\<rparr>, (w1, []))"
    and same: "bk_qm (w_broker w1) = bk_qm (w_broker w)"
    using connect_registers [of bw ids w "[]"] assms(1) by (auto simp: source_ok_def)
  let ?bw = "bw\<lparr>bw_connected := True, bw_running := True\<rparr>"
  note eqs = source_same [OF same]
  have "source_ok r ?bw w1" and "N = sum_list (map (runs bad r) (jobs ?bw w1))" using assms eqs by simp_all
  from lone_worker.drains [where str_of = str_of and tr = "[]" and ids = ids, OF this(1) _ _ this(2)]
  obtain w' where loop: "run_loop (traced_exec bad) (traced (broker_link ids)) (traced_sleep pass_time) str_of
        (replicate N False) ?bw (w1, []) =
      (Ongoing, ?bw\<lparr>bw_tasks_completed := bw_tasks_completed bw + length (filter (\<lambda>j. \<not> job_bad bad j) (jobs bw w)),
          bw_tasks_failed := bw_tasks_failed bw + sum_list (map (runs bad r) (filter (job_bad bad) (jobs bw w)))\<rparr>,
       (w', concat (map (\<lambda>j. replicate (runs bad r j) (fst (snd j))) (jobs bw w))))"
    and fin: "jobs bw w' = []"
      "completed_ids w' = completed_ids w \<union> set (map fst (filter (\<lambda>j. \<not> job_bad bad j) (jobs bw w)))"
      "buried_ids w' = buried_ids w \<union> set (map fst (filter (job_bad bad) (jobs bw w)))"
    using eqs by (auto simp del: set_filter)
  show ?thesis
    using conn fin run_loop_append [OF loop, of "[True]"]
    by (auto simp: bw_run_def bw_shutdown_def bw_close_def Let_def simp del: set_filter)
qed

theorem lone_worker_drains_witness:
  "\<exists>bw' w'. bw_run (traced_exec (\<lambda>p. p = JInt 2)) (traced (broker_link (\<lambda>_. ''t''))) (traced_sleep pass_time) (\<lambda>_. ''failed'')
      True (replicate 4 False @ [True]) sample_worker (two_tasks_world, []) =
      (Stopped, bw', (w', [JInt 1, JInt 2, JInt 2, JInt 2])) \<and> completed_ids w' = {''a''} \<and> buried_ids w' = {''b''}"
  using lone_worker_drains [of 3 sample_worker two_tasks_world 4 "\<lambda>p. p = JInt 2" "\<lambda>_. ''t''" "\<lambda>_. ''failed''"]
    two_tasks_world_facts
  by (auto simp: runs_def numeral_3_eq_3)

end
