(* ===== verification/Heartbeats.thy ===== *)
theory Heartbeats
  imports End_To_End Base_Worker
begin

text \<open>
  Liveness as the broker sees it. Every command changes the worker registry by at most one of
  its methods; a worker that is heard from often enough therefore stays registered through
  every sequence of commands of any clients and of eviction passes.
\<close>

section \<open>What a command does to the registry\<close>

inductive registry_step :: "call_env \<Rightarrow> worker_registry \<Rightarrow> worker_registry \<Rightarrow> bool" for e reg where
  same: "registry_step e reg reg"
| registered: "registry_step e reg (snd (register (env_time e) w (env_peer e) qs (env_conn e) reg))"
| heartbeat: "registry_step e reg (snd (record_heartbeat (env_time e) w reg))"
| assigned: "registry_step e reg (assign_task (env_monotonic e) w tid reg)"
| completed: "registry_step e reg (complete_task (env_monotonic e) w tid reg)"

lemma complete_field_step: "complete_task_field (env_monotonic e) j tid reg = Inr reg' \<Longrightarrow> registry_step e reg reg'"
  by (auto simp: complete_task_field_def split: json.splits intro: registry_step.intros)

lemma handlers_registry:
  "handle_produce e m b = (r, b') \<Longrightarrow> registry_step e (bk_wr b) (bk_wr b')"
  "handle_consume e m b = (r, b') \<Longrightarrow> registry_step e (bk_wr b) (bk_wr b')"
  "handle_register e m b = (r, b') \<Longrightarrow> registry_step e (bk_wr b) (bk_wr b')"
  "handle_heartbeat e m b = (r, b') \<Longrightarrow> registry_step e (bk_wr b) (bk_wr b')"
  "handle_ack e m b = (r, b') \<Longrightarrow> registry_step e (bk_wr b) (bk_wr b')"
  "handle_nack e m b = (r, b') \<Longrightarrow> registry_step e (bk_wr b) (bk_wr b')"
  "handle_dlq_list e m b = (r, b') \<Longrightarrow> registry_step e (bk_wr b) (bk_wr b')"
  "handle_dlq_replay e m b = (r, b') \<Longrightarrow> registry_step e (bk_wr b) (bk_wr b')"
  "handle_dlq_purge e m b = (r, b') \<Longrightarrow> registry_step e (bk_wr b) (bk_wr b')"
  "handle_stats e m b = (r, b') \<Longrightarrow> registry_step e (bk_wr b) (bk_wr b')"
  "handle_metrics e m b = (r, b') \<Longrightarrow> registry_step e (bk_wr b) (bk_wr b')"
  by (auto simp: handle_produce_def handle_dlq_list_def handle_dlq_replay_def handle_dlq_purge_def handle_stats_def
      handle_metrics_def get_metrics_snapshot_def handle_consume_def handle_register_def handle_heartbeat_def
      handle_ack_def handle_nack_def Let_def case_prod_unfold
      split: if_splits json.splits option.splits sum.splits nack_result.splits bool.splits
      intro: registry_step.intros complete_field_step)

lemma dispatch_registry: "dispatch e msg b = (r, b') \<Longrightarrow> registry_step e (bk_wr b) (bk_wr b')"
proof (cases "\<exists>m c h. msg = JDict m \<and> dict_get handlers c = Some h \<and> h e m b = (r, b')")
  case True
  then obtain m c h where "dict_get handlers c = Some h" and "h e m b = (r, b')" by blast
  then show ?thesis by (auto simp: handlers_def split: if_splits intro: handlers_registry)
next
  case False
  assume "dispatch e msg b = (r, b')"
  with False have "b' = b" by (auto simp: dispatch_def split: json.splits if_splits option.splits)
  then show ?thesis by (simp add: same)
qed

lemma registry_step_ok: "registry_step e reg reg' \<Longrightarrow> wr_ok reg \<Longrightarrow> wr_ok reg'"
  by (cases rule: registry_step.cases) (auto intro: inv_intros)

section \<open>Being heard from\<close>

text \<open>The worker is registered and its last heartbeat is not older than \<open>h\<close>.\<close>

definition heard :: "string \<Rightarrow> time \<Rightarrow> worker_registry \<Rightarrow> bool" where
  "heard wid h reg \<longleftrightarrow> (\<exists>wi. get_worker reg wid = Some wi \<and> h \<le> wi_last_heartbeat wi)"

lemma fold_latency_workers: "wr_workers (fold (\<lambda>q. record_latency q lat) qs reg) = wr_workers reg"
  by (induction qs arbitrary: reg) (simp_all add: record_latency_def)

lemma registry_step_heard:
  "registry_step e reg reg' \<Longrightarrow> heard wid h reg \<Longrightarrow> h \<le> env_time e \<Longrightarrow> heard wid h reg'"
  by (cases rule: registry_step.cases)
    (auto simp: heard_def get_worker_def register_def record_heartbeat_def assign_task_def complete_task_def Let_def
      fold_latency_workers split: option.splits)

lemma heartbeat_heard:
  assumes "heard (bw_worker_id bw) h (bk_wr b)" and "bw_worker_id bw \<noteq> []"
  shows "heard (bw_worker_id bw) (env_time e) (bk_wr (snd (dispatch e (heartbeat_message bw) b)))"
  using assms
  by (auto simp: heartbeat_message_def dispatch_def handlers_def handle_heartbeat_def dict_get_or_def record_heartbeat_def
      heard_def get_worker_def)

section \<open>Runs of the broker\<close>

text \<open>Commands of arbitrary clients and wake-ups of the eviction loop, in the order in which the
  event loop takes them.\<close>

datatype broker_event = Call call_env json | Wake "string list \<Rightarrow> string list" time

fun broker_run :: "broker_event list \<Rightarrow> broker \<Rightarrow> broker" where
  "broker_run [] b = b"
| "broker_run (Call e msg # es) b = broker_run es (snd (dispatch e msg b))"
| "broker_run (Wake ord t # es) b = broker_run es (evict_tick ord t b)"

text \<open>The worker's heartbeats among them: no clock reading lies before the last heartbeat \<open>h\<close>, and
  no eviction pass comes more than six seconds after it.\<close>

fun beating :: "worker \<Rightarrow> time \<Rightarrow> broker_event list \<Rightarrow> bool" where
  "beating bw h [] = True"
| "beating bw h (Call e msg # es) =
     (h \<le> env_time e \<and> beating bw (if msg = heartbeat_message bw then env_time e else h) es)"
| "beating bw h (Wake ord t # es) = (t \<le> h + 6 \<and> beating bw h es)"

lemma beating_heard:
  assumes "beating bw h es" and "bw_worker_id bw \<noteq> []" and "wr_ok (bk_wr b)" and "heard (bw_worker_id bw) h (bk_wr b)"
  shows "\<exists>h'. heard (bw_worker_id bw) h' (bk_wr (broker_run es b))"
  using assms
proof (induction es arbitrary: h b)
  case (Cons ev es)
  show ?case
  proof (cases ev)
    case (Call e msg)
    let ?b = "snd (dispatch e msg b)" and ?h = "if msg = heartbeat_message bw then env_time e else h"
    have step: "registry_step e (bk_wr b) (bk_wr ?b)"
      by (rule dispatch_registry [of e msg b "fst (dispatch e msg b)"]) simp
    have "heard (bw_worker_id bw) ?h (bk_wr ?b)"
      using registry_step_heard [OF step Cons.prems(4)] heartbeat_heard [OF Cons.prems(4,2), of e] Cons.prems(1) Call by simp
    moreover have "beating bw ?h es" using Cons.prems(1) Call by simp
    ultimately have "\<exists>h'. heard (bw_worker_id bw) h' (bk_wr (broker_run es ?b))"
      using Cons.IH Cons.prems(2) registry_step_ok [OF step Cons.prems(3)] by blast
    then show ?thesis using Call by simp
  next
    case (Wake ord t)
    have "bk_wr (evict_tick ord t b) = fst (evict_dead_workers ord (Some requeue_by_id) t (bk_wr b, bk_qm b))"
      by (simp add: evict_tick_def case_prod_unfold)
    then have "wr_ok (bk_wr (evict_tick ord t b))" and "heard (bw_worker_id bw) h (bk_wr (evict_tick ord t b))"
      using Cons.prems Wake
      by (auto simp: wr_ok_evict heard_def evict_get_worker is_dead_def HEARTBEAT_TIMEOUT_SECONDS_def)
    moreover have "beating bw h es" using Cons.prems(1) Wake by simp
    ultimately have "\<exists>h'. heard (bw_worker_id bw) h' (bk_wr (broker_run es (evict_tick ord t b)))"
      using Cons.IH Cons.prems(2) by blast
    then show ?thesis using Wake by simp
  qed
qed auto

definition beat_worker :: worker where
  "beat_worker = bw_init ''q'' ''h'' 1 1 2 (Some ''w'') []"

definition beat_info :: worker_info where
  "beat_info = \<lparr>wi_worker_id = ''w'', wi_queues = [''q''], wi_address = (''h'', 1), wi_registered_at = 0,
     wi_last_heartbeat = 0, wi_in_flight_tasks = [], wi_task_start_times = [], wi_writer = None, wi_status = Active\<rparr>"

definition beat_broker :: broker where
  "beat_broker = (bk_init 0 None)\<lparr>bk_wr := wr_init\<lparr>wr_workers := [(''w'', beat_info)]\<rparr>\<rparr>"

definition beat_env :: call_env where
  "beat_env = \<lparr>env_time = 6, env_monotonic = 0, env_uuid = ''u'', env_peer = (''h'', 1), env_conn = None\<rparr>"

section \<open>Properties\<close>

text \<open>
  C17. Heartbeats keep a worker registered. Take a registered worker and any sequence of commands
  from any clients, valid or not, and of eviction passes, under a clock that never falls behind
  the worker's last heartbeat. If every pass comes at most six seconds after the worker's last
  heartbeat, the worker is still registered at the end. (The dashboard's
  crash-worker action, which removes a worker on purpose, is not among these events.)
\<close>

theorem heartbeats_keep_registration:
  assumes "wr_ok (bk_wr b)" and "get_worker (bk_wr b) (bw_worker_id bw) = Some wi" and "bw_worker_id bw \<noteq> []"
    and "beating bw (wi_last_heartbeat wi) es"
  shows "get_worker (bk_wr (broker_run es b)) (bw_worker_id bw) \<noteq> None"
  using beating_heard [OF assms(4,3,1)] assms(2) by (auto simp: heard_def)

theorem heartbeats_keep_registration_witness:
  "get_worker (bk_wr (broker_run [Wake id 6, Call beat_env (heartbeat_message beat_worker), Wake id 12] beat_broker)) ''w'' \<noteq> None"
proof -
  have "wr_ok (bk_wr beat_broker)" and "get_worker (bk_wr beat_broker) (bw_worker_id beat_worker) = Some beat_info"
    and "bw_worker_id beat_worker \<noteq> []"
    and "beating beat_worker (wi_last_heartbeat beat_info) [Wake id 6, Call beat_env (heartbeat_message beat_worker), Wake id 12]"
    by (simp_all add: beat_broker_def beat_info_def beat_worker_def beat_env_def bw_init_def wr_ok_def worker_ok_def
        wr_init_def get_worker_def dict_ok_def)
  from heartbeats_keep_registration [OF this] show ?thesis by (simp add: beat_worker_def bw_init_def)
qed

end
