(* ===== verification/Task_Executor.thy ===== *)
theory Task_Executor
  imports Base_Worker
begin

text \<open>
  \<open>worker/task_executor.py\<close>: the default task function that runs in a child process, and the
  worker that hands its tasks to a process pool. A task function gets the payload only; the
  process identifier \<open>pid\<close> and the number \<open>depth\<close> of interpreter frames left are arguments.
\<close>

section \<open>Numbers and sequences in payloads\<close>

text \<open>\<open>x ** 2\<close> and \<open>x + y\<close> on JSON numbers; \<open>True\<close> and \<open>False\<close> count as 1 and 0.\<close>

definition num_square :: "json \<Rightarrow> exn + json" where
  "num_square j =
     (case j of
        JInt i \<Rightarrow> Inr (JInt (i ^ 2))
      | JFloat x \<Rightarrow> Inr (JFloat (x ^ 2))
      | JBool b \<Rightarrow> Inr (JInt (of_bool b))
      | _ \<Rightarrow> Inl TypeError)"

fun num_add :: "json \<Rightarrow> json \<Rightarrow> exn + json" where
  "num_add (JInt i) (JInt j) = Inr (JInt (i + j))"
| "num_add (JInt i) (JFloat y) = Inr (JFloat (of_int i + y))"
| "num_add (JFloat x) (JInt j) = Inr (JFloat (x + of_int j))"
| "num_add (JFloat x) (JFloat y) = Inr (JFloat (x + y))"
| "num_add _ _ = Inl TypeError"

text \<open>What iterating over a value yields: the elements of a list, the characters of a string, the
  keys of an object.\<close>

definition py_iter :: "json \<Rightarrow> exn + json list" where
  "py_iter j =
     (case j of
        JList xs \<Rightarrow> Inr xs
      | JStr s \<Rightarrow> Inr (map (\<lambda>c. JStr [c]) s)
      | JDict kvs \<Rightarrow> Inr (map (\<lambda>(k, _). JStr k) kvs)
      | _ \<Rightarrow> Inl TypeError)"

text \<open>\<open>sum(x ** 2 for x in data)\<close>, from the running total \<open>acc\<close>.\<close>

fun sum_squares :: "json \<Rightarrow> json list \<Rightarrow> exn + json" where
  "sum_squares acc [] = Inr acc"
| "sum_squares acc (x # xs) =
     (case num_square x of
        Inl e \<Rightarrow> Inl e
      | Inr y \<Rightarrow> (case num_add acc y of Inl e \<Rightarrow> Inl e | Inr z \<Rightarrow> sum_squares z xs))"

section \<open>The task function\<close>

text \<open>The naive recursion; each call takes one frame.\<close>

fun fib :: "nat \<Rightarrow> 'a::linordered_idom \<Rightarrow> exn + 'a" where
  "fib 0 x = Inl RecursionError"
| "fib (Suc depth) x =
     (if x \<le> 1 then Inr x
      else case fib depth (x - 1) of
        Inl e \<Rightarrow> Inl e
      | Inr a \<Rightarrow> (case fib depth (x - 2) of Inl e \<Rightarrow> Inl e | Inr b \<Rightarrow> Inr (a + b)))"

definition fib_value :: "nat \<Rightarrow> json \<Rightarrow> exn + json" where
  "fib_value depth n =
     (case n of
        JInt i \<Rightarrow> map_sum id JInt (fib depth i)
      | JFloat x \<Rightarrow> map_sum id JFloat (fib depth x)
      | JBool b \<Rightarrow> Inr (JBool b)
      | _ \<Rightarrow> Inl TypeError)"

definition num_value :: "json \<Rightarrow> rat option" where
  "num_value j =
     (case j of JInt i \<Rightarrow> Some (of_int i) | JFloat x \<Rightarrow> Some x | JBool b \<Rightarrow> Some (of_bool b) | _ \<Rightarrow> None)"

text \<open>\<open>sorted(data)\<close> of numbers. Longer sequences of other values are not followed.\<close>

definition py_sorted :: "json list \<Rightarrow> exn + json list" where
  "py_sorted xs =
     (if length xs \<le> 1 then Inr xs
      else if \<forall>x \<in> set xs. num_value x \<noteq> None then Inr (sort_key (\<lambda>x. the (num_value x)) xs)
      else Inl (IllTyped ''data''))"

definition compute_task :: "json \<Rightarrow> json \<Rightarrow> exn + json" where
  "compute_task pid data =
     (case py_iter data of
        Inl e \<Rightarrow> Inl e
      | Inr xs \<Rightarrow>
          (case sum_squares (JInt 0) xs of
             Inl e \<Rightarrow> Inl e
           | Inr r \<Rightarrow> Inr (JDict [(''result'', r), (''processed_count'', JInt (int (length xs))), (''pid'', pid)])))"

definition sort_task :: "json \<Rightarrow> json \<Rightarrow> exn + json" where
  "sort_task pid data =
     (case py_iter data of
        Inl e \<Rightarrow> Inl e
      | Inr xs \<Rightarrow>
          (case py_sorted xs of
             Inl e \<Rightarrow> Inl e
           | Inr ys \<Rightarrow>
               Inr (JDict [(''sorted'', JList (take 10 ys)), (''length'', JInt (int (length ys))), (''pid'', pid)])))"

definition cpu_bound_task :: "nat \<Rightarrow> int \<Rightarrow> json \<Rightarrow> exn + json" where
  "cpu_bound_task depth pid p =
     (case p of
        JDict payload \<Rightarrow>
          (let task_type = dict_get_or payload ''type'' (JStr ''compute'')
           in if task_type = JStr ''compute''
              then compute_task (JInt pid) (dict_get_or payload ''data'' (JList []))
              else if task_type = JStr ''fibonacci''
              then (let n = dict_get_or payload ''n'' (JInt 10)
                    in case fib_value depth n of
                         Inl e \<Rightarrow> Inl e
                       | Inr r \<Rightarrow> Inr (JDict [(''result'', r), (''n'', n), (''pid'', JInt pid)]))
              else if task_type = JStr ''sort''
              then sort_task (JInt pid) (dict_get_or payload ''data'' (JList []))
              else Inr (JDict [(''echoed'', p), (''pid'', JInt pid)]))
      | _ \<Rightarrow> Inl AttributeError)"

section \<open>The process pool worker\<close>

datatype executor = Not_created | Pool int | Shut_down

record pool_worker =
  pw_base :: worker
  pw_max_workers :: int
  pw_executor :: executor

definition pw_init :: "worker \<Rightarrow> int \<Rightarrow> pool_worker" where
  "pw_init bw n = \<lparr>pw_base = bw, pw_max_workers = n, pw_executor = Not_created\<rparr>"

text \<open>\<open>run_in_executor\<close>: the task function runs in another process, so the world does not change;
  a pool that has been shut down refuses. (Without a pool the event loop's own one is used.)\<close>

definition pw_execute :: "(json \<Rightarrow> exn + json) \<Rightarrow> executor \<Rightarrow> json \<Rightarrow> 'w \<Rightarrow> (exn + json) \<times> 'w" where
  "pw_execute task_func ex p w =
     (case ex of
        Shut_down \<Rightarrow> (Inl (RuntimeError ''cannot schedule new futures after shutdown''), w)
      | _ \<Rightarrow> (task_func p, w))"

definition pw_run ::
  "(json \<Rightarrow> exn + json) \<Rightarrow> (json \<Rightarrow> 'w \<Rightarrow> (exn + json) \<times> 'w) \<Rightarrow> (time \<Rightarrow> 'w \<Rightarrow> 'w) \<Rightarrow> (exn \<Rightarrow> string) \<Rightarrow>
   bool \<Rightarrow> bool list \<Rightarrow> pool_worker \<Rightarrow> 'w \<Rightarrow> run_end \<times> pool_worker \<times> 'w" where
  "pw_run task_func link sleep str_of opened stops pw w =
     (if pw_max_workers pw \<le> 0 then (Raised ValueError, pw, w)
      else
        (let ex = Pool (pw_max_workers pw)
         in case bw_run (pw_execute task_func ex) link sleep str_of opened stops (pw_base pw) w of
              (Ongoing, bw, w1) \<Rightarrow> (Ongoing, pw\<lparr>pw_base := bw, pw_executor := ex\<rparr>, w1)
            | (e, bw, w1) \<Rightarrow> (e, pw\<lparr>pw_base := bw, pw_executor := Shut_down\<rparr>, w1)))"

section \<open>Correctness of the recursion\<close>

fun fibonacci :: "nat \<Rightarrow> nat" where
  "fibonacci 0 = 0"
| "fibonacci (Suc 0) = 1"
| "fibonacci (Suc (Suc n)) = fibonacci (Suc n) + fibonacci n"

lemma fib_exact:
  "fib depth (int n) = (if n \<le> depth \<and> 0 < depth then Inr (int (fibonacci n)) else Inl RecursionError)"
proof (induction depth arbitrary: n)
  case (Suc depth)
  show ?case
  proof (cases n rule: fibonacci.cases)
    case (3 m)
    have "int n - 1 = int (Suc m)" and "int n - 2 = int m" using 3 by simp_all
    then show ?thesis using 3 Suc.IH [of "Suc m"] Suc.IH [of m] by auto
  qed simp_all
qed simp

lemma py_sorted_numbers:
  assumes "\<forall>x \<in> set xs. num_value x \<noteq> None"
  shows "\<exists>ys. py_sorted xs = Inr ys \<and> mset ys = mset xs \<and> sorted (map (\<lambda>x. the (num_value x)) ys)"
proof (cases "length xs \<le> 1")
  case True
  then show ?thesis by (cases xs) (auto simp: py_sorted_def)
next
  case False
  then show ?thesis using assms by (simp add: py_sorted_def)
qed

section \<open>Properties\<close>

text \<open>
  C32. The default task function is right on two of its task types. A \<open>fibonacci\<close> task returns the
  Fibonacci number exactly when the recursion fits into the frames that are left, and raises
  \<open>RecursionError\<close> otherwise; a \<open>sort\<close> task on numbers returns the ten smallest in ascending
  order (all of them when there are fewer) and the full length.
\<close>

theorem default_tasks_correct:
  assumes "dict_get f ''type'' = Some (JStr ''fibonacci'')" and "dict_get f ''n'' = Some (JInt (int n))"
    and "dict_get s ''type'' = Some (JStr ''sort'')" and "dict_get s ''data'' = Some (JList xs)"
    and "\<forall>x \<in> set xs. num_value x \<noteq> None"
  shows "cpu_bound_task depth pid (JDict f) =
           (if n \<le> depth \<and> 0 < depth
            then Inr (JDict [(''result'', JInt (int (fibonacci n))), (''n'', JInt (int n)), (''pid'', JInt pid)])
            else Inl RecursionError) \<and>
         (\<exists>ys. mset ys = mset xs \<and> sorted (map (\<lambda>x. the (num_value x)) ys) \<and>
            cpu_bound_task depth pid (JDict s) =
              Inr (JDict [(''sorted'', JList (take 10 ys)), (''length'', JInt (int (length xs))), (''pid'', JInt pid)]))"
proof
  show "cpu_bound_task depth pid (JDict f) =
           (if n \<le> depth \<and> 0 < depth
            then Inr (JDict [(''result'', JInt (int (fibonacci n))), (''n'', JInt (int n)), (''pid'', JInt pid)])
            else Inl RecursionError)"
    using assms(1,2) by (simp add: cpu_bound_task_def dict_get_or_def fib_value_def fib_exact Let_def)
  obtain ys where ys: "py_sorted xs = Inr ys" "mset ys = mset xs" "sorted (map (\<lambda>x. the (num_value x)) ys)"
    using py_sorted_numbers [OF assms(5)] by blast
  then have "length ys = length xs" by (metis size_mset)
  with ys show "\<exists>ys. mset ys = mset xs \<and> sorted (map (\<lambda>x. the (num_value x)) ys) \<and>
            cpu_bound_task depth pid (JDict s) =
              Inr (JDict [(''sorted'', JList (take 10 ys)), (''length'', JInt (int (length xs))), (''pid'', JInt pid)])"
    using assms(3,4)
    by (auto simp: cpu_bound_task_def dict_get_or_def sort_task_def py_iter_def Let_def)
qed

theorem default_tasks_correct_witness:
  "cpu_bound_task 20 7 (JDict [(''type'', JStr ''fibonacci''), (''n'', JInt 10)]) =
     Inr (JDict [(''result'', JInt 55), (''n'', JInt 10), (''pid'', JInt 7)])"
proof -
  have "fibonacci 10 = 55" by code_simp
  then show ?thesis
    using default_tasks_correct [of "[(''type'', JStr ''fibonacci''), (''n'', JInt 10)]" 10
        "[(''type'', JStr ''sort''), (''data'', JList [JInt 3, JInt 1])]" "[JInt 3, JInt 1]" 20 7]
    by (simp add: num_value_def)
qed

end
