(* ===== verification/Http_Api.thy ===== *)
theory Http_Api
  imports Durability Wire_Protocol
begin

text \<open>
  \<open>HTTPAPIServer\<close> of \<open>broker/http_api.py\<close>: the request line, the routes, the dashboard page, the
  static files and the administrative actions. The server is generic in the state \<open>'b\<close> its
  handlers work on; \<open>broker_http\<close> at the end is the instance \<open>BrokerServer.start\<close> builds.

  The decoding of the request bytes is the argument \<open>decode\<close>, the file system is \<open>fs\<close> and
  starting a load generator is \<open>spawn\<close> (whether the process starts). A response is its status
  code and its body; \<open>response_head\<close> gives the header lines. The response headers of a \<open>HEAD\<close>
  request are fixed.
\<close>

section \<open>Requests and responses\<close>

abbreviation crlf :: string where
  "crlf \<equiv> [CHR 0x0D, CHR 0x0A]"

fun header_lines :: "string list \<Rightarrow> (string, string) dict \<Rightarrow> (string, string) dict" where
  "header_lines [] headers = headers"
| "header_lines (line # lines) headers =
     (if line = [] then headers
      else if CHR '':'' \<in> set line
      then header_lines lines
             (dict_set (py_lower (py_strip (takeWhile (\<lambda>c. c \<noteq> CHR '':'') line)))
                (py_strip (tl (dropWhile (\<lambda>c. c \<noteq> CHR '':'') line))) headers)
      else header_lines lines headers)"

definition parse_headers :: "string \<Rightarrow> (string, string) dict" where
  "parse_headers request_text = header_lines (tl (py_split crlf request_text)) []"

datatype http_body = JsonBody json | HtmlBody string | FileBody string string \<comment> \<open>content type, content\<close>

datatype http_answer = No_answer | Head_ok | Answer nat http_body

definition status_text :: "nat \<Rightarrow> string" where
  "status_text code =
     dict_get_or [(200, ''OK''), (400, ''Bad Request''), (404, ''Not Found''), (405, ''Method Not Allowed''),
                  (500, ''Internal Server Error'')] code ''Unknown''"

text \<open>\<open>dumps\<close> is the JSON text of the body; the three kinds of responses differ in their headers.\<close>

definition response_head :: "(json \<Rightarrow> string) \<Rightarrow> nat \<Rightarrow> http_body \<Rightarrow> string list" where
  "response_head dumps code body =
     [''HTTP/1.1 '' @ py_str code @ '' '' @ status_text code] @
     (case body of
        JsonBody j \<Rightarrow>
          [''Content-Type: application/json'', ''Content-Length: '' @ py_str (length (dumps j)),
           ''Access-Control-Allow-Origin: *'']
      | HtmlBody html \<Rightarrow>
          [''Content-Type: text/html; charset=utf-8'', ''Content-Length: '' @ py_str (length html),
           ''Access-Control-Allow-Origin: *'', ''Cache-Control: no-cache'']
      | FileBody content_type content \<Rightarrow>
          [''Content-Type: '' @ content_type, ''Content-Length: '' @ py_str (length content),
           ''Access-Control-Allow-Origin: *'']) @
     [''Connection: close'']"

definition http_error :: "nat \<Rightarrow> string \<Rightarrow> http_answer" where
  "http_error code why = Answer code (JsonBody (JDict [(''error'', JStr why)]))"

section \<open>The server\<close>

type_synonym 'b handler = "call_env \<Rightarrow> 'b \<Rightarrow> (exn + json) \<times> 'b"

record 'b http_api =
  ha_metrics_handler :: "'b handler option"
  ha_dlq_handler :: "'b handler option"
  ha_stats_handler :: "'b handler option"
  ha_crash_worker_handler :: "'b handler option"
  ha_replay_dlq_handler :: "'b handler option"
  ha_reset_handler :: "'b handler option"
  ha_dashboard_dir :: string
  ha_active_loads :: nat

datatype node = File string | Directory

text \<open>A route returns the answer or raises, with the server and the state after it.\<close>

type_synonym 'b outcome = "(exn + http_answer) \<times> 'b http_api \<times> 'b"

definition serve_dashboard :: "(string \<Rightarrow> node option) \<Rightarrow> 'b http_api \<Rightarrow> exn + http_answer" where
  "serve_dashboard fs api =
     (case fs (path_join (ha_dashboard_dir api) ''index.html'') of
        None \<Rightarrow> Inr (http_error 404 ''Dashboard not found. Create dashboard/index.html'')
      | Some (File html) \<Rightarrow> Inr (Answer 200 (HtmlBody html))
      | Some Directory \<Rightarrow> Inl OSError)"

definition content_type_of :: "string \<Rightarrow> string" where
  "content_type_of file_path =
     dict_get_or [(''.css'', ''text/css''), (''.js'', ''application/javascript''), (''.png'', ''image/png''),
                  (''.svg'', ''image/svg+xml''), (''.ico'', ''image/x-icon'')]
       (py_lower (path_ext file_path)) ''application/octet-stream''"

definition serve_static :: "(string \<Rightarrow> node option) \<Rightarrow> 'b http_api \<Rightarrow> string \<Rightarrow> http_answer" where
  "serve_static fs api path =
     (let relative = drop (length ''/static/'') path
      in if sublist ''..'' relative \<or> prefix ''/'' relative then http_error 404 ''Not found''
         else
           (let file_path = path_join (ha_dashboard_dir api) relative
            in case fs file_path of
                 Some (File body) \<Rightarrow> Answer 200 (FileBody (content_type_of file_path) body)
               | _ \<Rightarrow> http_error 404 ''Not found''))"

text \<open>The handlers are asynchronous functions: calling one only makes a coroutine, awaiting it runs
  the body. \<open>_send_response\<close> encodes the body it is given; the JSON encoder raises \<open>TypeError\<close> on
  an object that is none of its types, such as a coroutine.\<close>

datatype 'b py_value = Json json | Coroutine "'b handler"

definition call_handler :: "'b handler \<Rightarrow> 'b py_value" where
  "call_handler f = Coroutine f"

definition await_handler :: "'b handler \<Rightarrow> call_env \<Rightarrow> 'b \<Rightarrow> (exn + 'b py_value) \<times> 'b" where
  "await_handler f e b = (case f e b of (Inl x, b1) \<Rightarrow> (Inl x, b1) | (Inr j, b1) \<Rightarrow> (Inr (Json j), b1))"

fun encode_body :: "'b py_value \<Rightarrow> exn + json" where
  "encode_body (Json j) = Inr j"
| "encode_body (Coroutine _) = Inl TypeError"

definition send_json :: "nat \<Rightarrow> 'b py_value \<Rightarrow> exn + http_answer" where
  "send_json code body = (case encode_body body of Inl x \<Rightarrow> Inl x | Inr j \<Rightarrow> Inr (Answer code (JsonBody j)))"

text \<open>A handler that is awaited; \<open>missing\<close> is the answer when none is configured.\<close>

definition serve_handler :: "'b handler option \<Rightarrow> http_answer \<Rightarrow> call_env \<Rightarrow> 'b http_api \<Rightarrow> 'b \<Rightarrow> 'b outcome" where
  "serve_handler h missing e api b =
     (case h of
        None \<Rightarrow> (Inr missing, api, b)
      | Some f \<Rightarrow>
          (case await_handler f e b of
             (Inl x, b1) \<Rightarrow> (Inl x, api, b1)
           | (Inr v, b1) \<Rightarrow> (send_json 200 v, api, b1)))"

definition missing_json :: "string \<Rightarrow> http_answer" where
  "missing_json why = Answer 200 (JsonBody (JDict [(''error'', JStr why)]))"

definition serve_metrics :: "call_env \<Rightarrow> 'b http_api \<Rightarrow> 'b \<Rightarrow> 'b outcome" where
  "serve_metrics e api b = serve_handler (ha_metrics_handler api) (missing_json ''Metrics handler not configured'') e api b"

definition serve_dlq :: "call_env \<Rightarrow> 'b http_api \<Rightarrow> 'b \<Rightarrow> 'b outcome" where
  "serve_dlq e api b = serve_handler (ha_dlq_handler api) (missing_json ''DLQ handler not configured'') e api b"

text \<open>The statistics handler is called but not awaited.\<close>

definition serve_stats :: "'b http_api \<Rightarrow> exn + http_answer" where
  "serve_stats api =
     (let stats = (case ha_stats_handler api of
                     Some f \<Rightarrow> call_handler f
                   | None \<Rightarrow> Json (JDict [(''error'', JStr ''Stats handler not registered'')]))
      in send_json 200 stats)"

text \<open>An awaited handler in closed form.\<close>

lemma serve_handler_eq:
  "serve_handler h missing e api b =
     (case h of
        None \<Rightarrow> (Inr missing, api, b)
      | Some f \<Rightarrow>
          (case f e b of
             (Inl x, b1) \<Rightarrow> (Inl x, api, b1)
           | (Inr j, b1) \<Rightarrow> (Inr (Answer 200 (JsonBody j)), api, b1)))"
  by (simp add: serve_handler_def await_handler_def send_json_def split: option.split prod.split sum.split)

definition handle_reset :: "call_env \<Rightarrow> 'b http_api \<Rightarrow> 'b \<Rightarrow> 'b outcome" where
  "handle_reset e api b =
     serve_handler (ha_reset_handler api) (http_error 500 ''Handler not configured'') e (api\<lparr>ha_active_loads := 0\<rparr>) b"

text \<open>\<open>_trigger_load_test\<close> and \<open>_trigger_flood\<close> differ in the arguments of the process and in the
  message.\<close>

definition trigger :: "string \<Rightarrow> (exn \<Rightarrow> string) \<Rightarrow> exn + unit \<Rightarrow> 'b http_api \<Rightarrow> http_answer \<times> 'b http_api" where
  "trigger started str_of spawn api =
     (case spawn of
        Inr _ \<Rightarrow>
          (Answer 200 (JsonBody (JDict [(''status'', JStr ''ok''), (''message'', JStr started)])),
           api\<lparr>ha_active_loads := Suc (ha_active_loads api)\<rparr>)
      | Inl x \<Rightarrow>
          (Answer 500 (JsonBody (JDict [(''status'', JStr ''error''), (''error'', JStr (str_of x))])), api))"

definition crash_worker :: "call_env \<Rightarrow> 'b http_api \<Rightarrow> 'b \<Rightarrow> 'b outcome" where
  "crash_worker e api b =
     serve_handler (ha_crash_worker_handler api) (http_error 500 ''Handler not configured'') e api b"

definition replay_dlq :: "call_env \<Rightarrow> 'b http_api \<Rightarrow> 'b \<Rightarrow> 'b outcome" where
  "replay_dlq e api b =
     serve_handler (ha_replay_dlq_handler api) (http_error 500 ''Handler not configured'') e api b"

section \<open>Routing\<close>

record http_env =
  he_call :: call_env
  he_fs :: "string \<Rightarrow> node option"
  he_spawn :: "exn + unit"
  he_str_of :: "exn \<Rightarrow> string"

definition route :: "http_env \<Rightarrow> string \<Rightarrow> string \<Rightarrow> 'b http_api \<Rightarrow> 'b \<Rightarrow> 'b outcome" where
  "route env verb path api b =
     (if verb \<notin> {''GET'', ''POST'', ''HEAD''} then (Inr (http_error 405 ''Method not allowed''), api, b)
      else if verb = ''HEAD'' then (Inr Head_ok, api, b)
      else if verb = ''GET'' \<and> (path = ''/'' \<or> path = ''/dashboard'') then (serve_dashboard (he_fs env) api, api, b)
      else if verb = ''GET'' \<and> (path = ''/metrics'' \<or> path = ''/metrics/'') then serve_metrics (he_call env) api b
      else if verb = ''POST'' \<and> path = ''/admin/load-test''
      then (case trigger ''Load test started'' (he_str_of env) (he_spawn env) api of (a, api1) \<Rightarrow> (Inr a, api1, b))
      else if verb = ''POST'' \<and> path = ''/admin/flood''
      then (case trigger ''Flood test started'' (he_str_of env) (he_spawn env) api of (a, api1) \<Rightarrow> (Inr a, api1, b))
      else if verb = ''POST'' \<and> path = ''/admin/crash-worker'' then crash_worker (he_call env) api b
      else if verb = ''POST'' \<and> path = ''/admin/dlq/replay-all'' then replay_dlq (he_call env) api b
      else if verb = ''POST'' \<and> path = ''/admin/reset'' then handle_reset (he_call env) api b
      else if path = ''/metrics/dlq'' then serve_dlq (he_call env) api b
      else if path = ''/stats'' then (serve_stats api, api, b)
      else if path = ''/health''
      then (Inr (Answer 200 (JsonBody (JDict [(''status'', JStr ''healthy''), (''service'', JStr ''distrosync-broker'')]))), api, b)
      else if prefix ''/static/'' path then (Inr (serve_static (he_fs env) api path), api, b)
      else (Inr (http_error 404 (''Not found: '' @ path)), api, b))"

text \<open>The fields of the request line.\<close>

definition request_parts :: "string \<Rightarrow> string list" where
  "request_parts request_text = py_split '' '' (hd (py_split crlf request_text))"

text \<open>One connection: \<open>None\<close> is a read that times out.\<close>

definition http_connection ::
  "(byte list \<Rightarrow> string) \<Rightarrow> http_env \<Rightarrow> byte list option \<Rightarrow> 'b http_api \<Rightarrow> 'b \<Rightarrow> http_answer \<times> 'b http_api \<times> 'b" where
  "http_connection decode env data api b =
     (case data of
        None \<Rightarrow> (No_answer, api, b)
      | Some bytes \<Rightarrow>
          (if bytes = [] then (No_answer, api, b)
           else
             (let parts = request_parts (decode bytes)
              in if length parts < 2 then (http_error 400 ''Bad request'', api, b)
                 else case route env (parts ! 0) (hd (py_split ''?'' (parts ! 1))) api b of
                   (Inl _, api1, b1) \<Rightarrow> (http_error 500 ''Internal server error'', api1, b1)
                 | (Inr a, api1, b1) \<Rightarrow> (a, api1, b1))))"

section \<open>The broker's instance\<close>

definition get_dlq_listing :: "broker handler" where
  "get_dlq_listing e b = handle_dlq_list e [(''command'', JStr ''DLQ_LIST'')] b"

definition get_stats_snapshot :: "broker handler" where
  "get_stats_snapshot e b = handle_stats e [(''command'', JStr ''STATS'')] b"

definition broker_http :: "(worker_info list \<Rightarrow> worker_info) \<Rightarrow> string \<Rightarrow> broker http_api" where
  "broker_http pick dir =
     \<lparr>ha_metrics_handler = Some (\<lambda>e b. case get_metrics_snapshot e b of (j, b1) \<Rightarrow> (Inr j, b1)),
      ha_dlq_handler = Some get_dlq_listing,
      ha_stats_handler = Some get_stats_snapshot,
      ha_crash_worker_handler = Some (\<lambda>e b. case crash_worker_handler pick e b of (j, b1) \<Rightarrow> (Inr j, b1)),
      ha_replay_dlq_handler = Some (\<lambda>e b. case replay_dlq_handler b of (j, b1) \<Rightarrow> (Inr j, b1)),
      ha_reset_handler = Some (\<lambda>e b. case reset_handler e b of (j, b1) \<Rightarrow> (Inr j, b1)),
      ha_dashboard_dir = dir, ha_active_loads = 0\<rparr>"

section \<open>Reading requests\<close>

lemma http_connection_cases:
  obtains "http_connection decode env data api b = (No_answer, api, b)"
  | "http_connection decode env data api b = (http_error 400 ''Bad request'', api, b)"
  | bytes x api1 b1 where "data = Some bytes"
      "route env (request_parts (decode bytes) ! 0) (hd (py_split ''?'' (request_parts (decode bytes) ! 1))) api b = (Inl x, api1, b1)"
      "http_connection decode env data api b = (http_error 500 ''Internal server error'', api1, b1)"
  | bytes a api1 b1 where "data = Some bytes"
      "route env (request_parts (decode bytes) ! 0) (hd (py_split ''?'' (request_parts (decode bytes) ! 1))) api b = (Inr a, api1, b1)"
      "http_connection decode env data api b = (a, api1, b1)"
proof (cases data)
  case None
  then show ?thesis using that(1) by (simp add: http_connection_def)
next
  case (Some bytes)
  let ?parts = "request_parts (decode bytes)"
  obtain res api1 b1 where run: "route env (?parts ! 0) (hd (py_split ''?'' (?parts ! 1))) api b = (res, api1, b1)"
    using prod_cases3 by blast
  consider "bytes = []" | "bytes \<noteq> []" "length ?parts < 2" | "bytes \<noteq> []" "\<not> length ?parts < 2" by blast
  then show ?thesis
  proof cases
    case 3
    then show ?thesis using that(3,4) [OF Some] run Some by (cases res) (auto simp: http_connection_def)
  qed (use that(1,2) Some in \<open>auto simp: http_connection_def\<close>)
qed

section \<open>Routes that only read\<close>

lemma serve_handler_frame:
  "(\<And>f e b r b1. h = Some f \<Longrightarrow> f e b = (r, b1) \<Longrightarrow> P b b1) \<Longrightarrow> P b b \<Longrightarrow>
     serve_handler h missing e api b = (r, api1, b1) \<Longrightarrow> api1 = api \<and> P b b1"
  by (auto simp: serve_handler_eq split: option.splits prod.splits sum.splits)

definition same_core :: "broker \<Rightarrow> broker \<Rightarrow> bool" where
  "same_core b b' \<longleftrightarrow> bk_qm b' = bk_qm b \<and> bk_wr b' = bk_wr b \<and> bk_wal b' = bk_wal b \<and>
     bk_active_connections b' = bk_active_connections b"

lemma same_core_refl [simp]: "same_core b b"
  by (simp add: same_core_def)

lemma metrics_same_core: "get_metrics_snapshot e b = (j, b1) \<Longrightarrow> same_core b b1"
  by (auto simp: get_metrics_snapshot_def same_core_def Let_def split: prod.splits)

lemma dlq_same_core: "get_dlq_listing e b = (r, b1) \<Longrightarrow> same_core b b1"
  by (auto simp: get_dlq_listing_def handle_dlq_list_def same_core_def Let_def split: option.splits)

lemma route_reads:
  assumes "route env verb path (broker_http pick dir) b = (r, api1, b1)" and "verb \<noteq> ''POST''"
  shows "api1 = broker_http pick dir \<and> same_core b b1"
  using assms
  by (auto simp: route_def serve_metrics_def serve_dlq_def serve_handler_eq broker_http_def
      split: if_splits prod.splits sum.splits dest: metrics_same_core dlq_same_core)

section \<open>Static files\<close>

lemma serve_handler_file: "serve_handler h missing e api b = (Inr (Answer code (FileBody ct content)), api1, b1) \<Longrightarrow>
    missing = Answer code (FileBody ct content)"
  by (auto simp: serve_handler_eq split: option.splits prod.splits sum.splits)

lemma route_file:
  assumes "route env verb path api b = (Inr (Answer code (FileBody ct content)), api1, b1)"
  shows "prefix ''/static/'' path \<and> serve_static (he_fs env) api path = Answer code (FileBody ct content)"
  using assms
  by (auto simp: route_def serve_metrics_def serve_dlq_def handle_reset_def crash_worker_def replay_dlq_def missing_json_def
      http_error_def serve_dashboard_def serve_stats_def send_json_def call_handler_def Let_def trigger_def
      split: if_splits prod.splits sum.splits option.splits node.splits dest!: serve_handler_file)

section \<open>Routes that fail\<close>

definition fails :: "exn + http_answer \<Rightarrow> bool" where
  "fails res \<longleftrightarrow> (case res of Inl _ \<Rightarrow> True | Inr a \<Rightarrow> \<exists>body. a = Answer 500 body)"


lemma serve_handler_ok:
  "h = Some f \<Longrightarrow> (\<exists>j. fst (f e b) = Inr j) \<Longrightarrow> serve_handler h missing e api b = (res, api1, b1) \<Longrightarrow> \<not> fails res"
  by (auto simp: serve_handler_eq fails_def split: prod.splits sum.splits)


definition sample_http_env :: http_env where
  "sample_http_env =
     \<lparr>he_call = \<lparr>env_time = 0, env_monotonic = 0, env_uuid = [], env_peer = ([], 0), env_conn = None\<rparr>,
      he_fs = (\<lambda>p. if p = ''d/app.css'' then Some (File ''body'') else None), he_spawn = Inr (), he_str_of = (\<lambda>_. [])\<rparr>"

lemma sample_requests:
  "request_parts ''GET /metrics HTTP/1.1'' = [''GET'', ''/metrics'', ''HTTP/1.1'']"
  "request_parts ''GET /static/app.css HTTP/1.1'' = [''GET'', ''/static/app.css'', ''HTTP/1.1'']"
  "py_split ''?'' ''/static/app.css'' = [''/static/app.css'']"
  "path_ext ''d/app.css'' = ''.css''" "py_lower ''.css'' = ''.css''" "sublist ''..'' ''app.css'' = False"
  by code_simp+

section \<open>Properties\<close>

text \<open>
  C23. Reading the dashboard is safe. No request other than a \<open>POST\<close>, whatever its bytes, its path
  and its outcome, changes a queue, a task, the worker registry, the database or the list of
  running load generators of the broker.
\<close>

theorem non_post_requests_only_read:
  assumes "http_connection decode env data (broker_http pick dir) b = (a, api1, b1)"
    and "\<forall>bytes. data = Some bytes \<longrightarrow> request_parts (decode bytes) ! 0 \<noteq> ''POST''"
  shows "api1 = broker_http pick dir \<and> bk_qm b1 = bk_qm b \<and> bk_wr b1 = bk_wr b \<and> bk_wal b1 = bk_wal b"
proof (cases rule: http_connection_cases [of decode env data "broker_http pick dir" b])
  case (3 bytes x api2 b2)
  then show ?thesis using assms route_reads [OF 3(2)] by (auto simp: same_core_def)
next
  case (4 bytes x api2 b2)
  then show ?thesis using assms route_reads [OF 4(2)] by (auto simp: same_core_def)
qed (use assms(1) in auto)

theorem non_post_requests_only_read_witness:
  "bk_qm (snd (snd (http_connection (\<lambda>_. ''GET /metrics HTTP/1.1'') sample_http_env (Some [71]) (broker_http hd ''d'')
     (bk_init 0 None)))) = qm_init 3"
proof -
  obtain a api1 b1 where run: "http_connection (\<lambda>_. ''GET /metrics HTTP/1.1'') sample_http_env (Some [71]) (broker_http hd ''d'')
      (bk_init 0 None) = (a, api1, b1)" using prod_cases3 by blast
  have "\<forall>bytes. Some [71] = Some bytes \<longrightarrow> request_parts ''GET /metrics HTTP/1.1'' ! 0 \<noteq> ''POST''"
    by (simp add: sample_requests)
  from non_post_requests_only_read [OF run this] have "bk_qm b1 = bk_qm (bk_init 0 None)" by simp
  then show ?thesis unfolding run by (simp add: bk_init_def)
qed

text \<open>
  C22. Static files stay inside the dashboard directory. Whatever the request, a file the server
  sends is the content of a regular file at the dashboard directory joined with a relative path
  that is not absolute and has no component \<open>..\<close>; it is sent with status 200.
\<close>

theorem static_files_confined:
  assumes "http_connection decode env data api b = (Answer code (FileBody ct content), api1, b1)"
  shows "\<exists>relative. he_fs env (path_join (ha_dashboard_dir api) relative) = Some (File content) \<and>
           \<not> prefix ''/'' relative \<and> ''..'' \<notin> set (py_split ''/'' relative) \<and> code = 200"
proof -
  obtain path where "serve_static (he_fs env) api path = Answer code (FileBody ct content)"
    using assms
    by (cases rule: http_connection_cases [of decode env data api b])
      (auto simp: http_error_def dest: route_file)
  then obtain relative where "he_fs env (path_join (ha_dashboard_dir api) relative) = Some (File content)"
    "\<not> prefix ''/'' relative" "\<not> sublist ''..'' relative" "code = 200"
    by (auto simp: serve_static_def http_error_def Let_def split: if_splits option.splits node.splits)
  then show ?thesis using py_split_sublist [of "''..''" "''/''" relative] by blast
qed

theorem static_files_confined_witness:
  "\<exists>relative. he_fs sample_http_env (path_join ''d'' relative) = Some (File ''body'') \<and> \<not> prefix ''/'' relative \<and>
     ''..'' \<notin> set (py_split ''/'' relative)"
proof -
  have "http_connection (\<lambda>_. ''GET /static/app.css HTTP/1.1'') sample_http_env (Some [71]) (broker_http hd ''d'') (bk_init 0 None) =
      (Answer 200 (FileBody ''text/css'' ''body''), broker_http hd ''d'', bk_init 0 None)"
    by (simp add: http_connection_def sample_requests route_def serve_static_def broker_http_def path_join_def sample_http_env_def
        content_type_of_def dict_get_or_def)
  from static_files_confined [OF this] show ?thesis by (simp add: broker_http_def)
qed



end
