(* ===== verification/Known_Gaps.thy ===== *)
theory Known_Gaps
  imports Durability
begin

text \<open>
  Behaviours of the broker that differ from what its comments promise, stated exactly: the
  payload of a task persisted to the dead letter table, the dead letter commands of a broker
  with a database, and tasks that no eviction pass will ever return.
\<close>

section \<open>The payload written to the dead letter table\<close>

lemma peek_ids: "dlq_ok d \<Longrightarrow> map de_task_id (dlq_peek (int k) d) = map fst (take k (dlq_tasks d))"
  by (force simp: dlq_peek_def py_take_def dlq_summary_def dlq_ok_def dead_task_def dest: in_set_takeD)

lemma find_none: "x \<notin> f ` set xs \<Longrightarrow> find (\<lambda>y. f y = x) xs = None"
  by (induction xs) auto

lemma find_append_new: "x \<notin> f ` set xs \<Longrightarrow> f y = x \<Longrightarrow> find (\<lambda>y. f y = x) (xs @ [y]) = Some y"
  by (induction xs) auto

lemma dlq_stub_payload:
  assumes "dlq_ok d" and "dict_get (dlq_tasks d) (task_id t) = None"
  shows "payload (dlq_stub now (task_id t) q n (dlq_add now t d)) =
         (if length (dlq_tasks d) < 100 then payload t else JDict [])"
proof -
  let ?d = "dlq_add now t d"
  have ts: "dlq_tasks ?d = dlq_tasks d @ [(task_id t, dlq_mark now t)]"
    using assms(2) by (simp add: dlq_add_def dict_set_new)
  have old: "task_id t \<notin> de_task_id ` set (map (dlq_summary \<circ> snd) (take k (dlq_tasks d)))" for k
    using assms unfolding dict_get_None
    by (force simp: dlq_ok_def dead_task_def dlq_summary_def dest!: in_set_takeD)
  show ?thesis
  proof (cases "length (dlq_tasks d) < 100")
    case True
    then have "dlq_peek 100 ?d = map (dlq_summary \<circ> snd) (take 100 (dlq_tasks d)) @ [dlq_summary (dlq_mark now t)]"
      by (simp add: dlq_peek_def py_take_def ts)
    then show ?thesis
      using True find_append_new [OF old [of 100], of "dlq_summary (dlq_mark now t)"]
      by (simp add: dlq_stub_def Let_def dlq_summary_def dlq_mark_def)
  next
    case False
    then have "dlq_peek 100 ?d = map (dlq_summary \<circ> snd) (take 100 (dlq_tasks d))"
      by (simp add: dlq_peek_def py_take_def ts)
    then show ?thesis
      using False find_none [OF old [of 100]] by (simp add: dlq_stub_def Let_def)
  qed
qed

lemma nack_bury:
  assumes "dict_get (qm_in_flight qm) tid = Some t" and "max_retries qm \<le> attempts t" and "task_id t = tid"
  shows "\<exists>qm'. negative_acknowledge now tid qm = (Some (Dead_lettered tid (attempts t) (queue_name t)), qm') \<and>
           qm_dlq qm' = dlq_add now (t\<lparr>status := DeadLettered\<rparr>) (qm_dlq qm)"
  using assms by (simp add: negative_acknowledge_def nack_take_def nack_finish_eq Let_def)

section \<open>Tasks no worker holds\<close>

definition unheld :: "string \<Rightarrow> worker_registry \<Rightarrow> bool" where
  "unheld tid reg \<longleftrightarrow> (\<forall>(wid, wi) \<in> set (wr_workers reg). tid \<notin> set (wi_in_flight_tasks wi))"

lemma unheld_stays_in_flight:
  assumes "\<And>xs. set (ord xs) = set xs" and "qm_ok qm" and "unheld tid reg" and "tid \<in> flying_ids qm"
    and "evict_dead_workers ord (Some requeue_by_id) now (reg, qm) = (reg', qm')"
  shows "tid \<in> flying_ids qm'"
  using qm_requeue.evict_dead_workers_moves(2) [OF assms(1,2,5) refl] assms(3,4)
  by (auto simp: unheld_def)

section \<open>Replaying from the dashboard\<close>

lemma live_dlq [simp]: "live (qm\<lparr>qm_dlq := d\<rparr>) = live qm"
  by (simp add: live_def work_def)

lemma live_retry_dead:
  "live (snd (retry_dead tid qm)) =
     live qm \<union> (case dict_get (dlq_tasks (qm_dlq qm)) tid of None \<Rightarrow> {} | Some t \<Rightarrow> {item (retry_task t)})"
  by (cases "dict_get (dlq_tasks (qm_dlq qm)) tid") (simp_all add: retry_dead_missing retry_dead_found)

lemma dlq_retry_dead:
  "dict_get (dlq_tasks (qm_dlq (snd (retry_dead tid' qm)))) tid =
     (if tid = tid' then None else dict_get (dlq_tasks (qm_dlq qm)) tid)"
  by (cases "dict_get (dlq_tasks (qm_dlq qm)) tid'") (auto simp: retry_dead_missing retry_dead_found)

lemma retry_each_live:
  "live qm \<subseteq> live (snd (retry_each tids (n, qm))) \<and>
   (tid \<in> set tids \<longrightarrow> dict_get (dlq_tasks (qm_dlq qm)) tid = Some t \<longrightarrow>
      item (retry_task t) \<in> live (snd (retry_each tids (n, qm))))"
proof (induction tids arbitrary: n qm)
  case (Cons x tids)
  obtain ok qm1 where r: "retry_dead x qm = (ok, qm1)" by fastforce
  have live: "live qm1 = live qm \<union> (case dict_get (dlq_tasks (qm_dlq qm)) x of None \<Rightarrow> {} | Some t \<Rightarrow> {item (retry_task t)})"
    using live_retry_dead [of x qm] r by simp
  have "dict_get (dlq_tasks (qm_dlq qm1)) tid = (if tid = x then None else dict_get (dlq_tasks (qm_dlq qm)) tid)"
    using dlq_retry_dead [of x qm tid] r by simp
  with Cons.IH [of qm1 "if ok then Suc n else n"] live show ?case
    by (cases "tid = x") (auto simp: r)
qed simp

lemma dead_not_live:
  assumes "qm_ok qm" and "dict_get (dlq_tasks (qm_dlq qm)) tid = Some t"
  shows "tid \<notin> fst ` live qm"
proof
  let ?W = "image_mset task_id (work qm)" and ?D = "image_mset task_id (mset (dict_values (dlq_tasks (qm_dlq qm))))"
  assume "tid \<in> fst ` live qm"
  then have in_work: "tid \<in># ?W" by (auto simp: live_def)
  have "task_id t = tid"
    using assms dlq_ok_getD [of "qm_dlq qm" tid t] by (simp add: qm_ok_def qm_wf_sel dead_task_def)
  then have in_dlq: "tid \<in># ?D" using in_values [OF assms(2)] by force
  have "qm_pool qm = ?W + ?D + image_mset task_id (mset (dict_values (qm_completed qm)))"
    by (simp add: qm_pool_def work_def)
  then have "no_dups (?W + ?D)"
    using assms(1) no_dups_subset [of "qm_pool qm" "?W + ?D"] by (simp add: qm_ok_def)
  from no_dups_disjoint [OF this in_work] in_dlq show False ..
qed

section \<open>A broker about to dead-letter a task\<close>

definition last_try_store :: wal_store where
  "last_try_store =
     \<lparr>ws_db_path = ''db'',
      ws_tasks = [(''t'', \<lparr>tr_queue_name = ''q'', tr_payload = Dumped JNull, tr_status = ''in_flight'', tr_attempts = 1,
                           tr_assigned_worker = Some ''w'', tr_created_at = 0, tr_updated_at = 0\<rparr>)],
      ws_dlq = [], ws_metadata = [], ws_open = True\<rparr>"

definition last_try_broker :: broker where
  "last_try_broker = (bk_init 0 (Some last_try_store))\<lparr>bk_qm := flying_manager\<rparr>"

definition gap_env :: call_env where
  "gap_env = \<lparr>env_time = 5, env_monotonic = 5, env_uuid = ''u'', env_peer = (''h'', 1), env_conn = None\<rparr>"

definition waiting_broker :: broker where
  "waiting_broker = (bk_init 0 None)\<lparr>bk_qm := snd (enqueue ''t'' 0 ''q'' JNull (qm_init 3))\<rparr>"

text \<open>A broker with one dead-lettered task and an empty task table.\<close>

definition buried_broker :: broker where
  "buried_broker = (bk_init 0 (Some (init_db ''db'' None)))
     \<lparr>bk_qm := (qm_init 3)\<lparr>qm_dlq := dlq_add 0 (new_task ''t'' ''q'' JNull 0) dlq_init\<rparr>\<rparr>"

lemma buried_broker_facts:
  "durable (buried_broker, False)" "bk_wal buried_broker = Some (init_db ''db'' None)"
  "dlq_tasks (qm_dlq (bk_qm buried_broker)) = [(''t'', dlq_mark 0 (new_task ''t'' ''q'' JNull 0))]"
proof -
  have "qm_ok (bk_qm buried_broker)"
    by (simp add: buried_broker_def qm_ok_def qm_wf_dlq inv_intros)
      (simp add: qm_pool_def qm_init_def pending_def dlq_add_def dlq_init_def dlq_mark_def)
  moreover have "live (bk_qm buried_broker) = {}" by (simp add: buried_broker_def)
  ultimately show "durable (buried_broker, False)"
    by (auto simp: durable_def core_def buried_broker_def bk_init_def init_db_def ws_ok_def texts_ok_def
        counts_ok_def stored_def)
qed (simp_all add: buried_broker_def bk_init_def dlq_add_def dlq_init_def)

lemma waiting_broker_facts:
  "qm_ok (bk_qm waiting_broker)" "unheld (task_id (new_task ''t'' ''q'' JNull 0)) (bk_wr waiting_broker)"
  "queue_of (bk_qm waiting_broker) ''q'' = [new_task ''t'' ''q'' JNull 0]"
  "get_worker (bk_wr waiting_broker) name = None"
proof -
  show "qm_ok (bk_qm waiting_broker)"
    by (simp add: waiting_broker_def inv_intros)
qed (simp_all add: waiting_broker_def bk_init_def unheld_def wr_init_def get_worker_def enqueue_eq)

section \<open>Properties\<close>

text \<open>
  C33. What the dead letter table stores. When a broker with a database dead-letters a task, the
  row it writes carries the task's payload only while the in-memory dead letter queue holds
  fewer than a hundred earlier tasks; from then on the row's payload is the empty object,
  whatever the task carried.
\<close>

theorem persisted_dead_letter_payload:
  assumes "bk_wal b = Some ws" and "qm_ok (bk_qm b)" and "dict_get (qm_in_flight (bk_qm b)) tid = Some t"
    and "max_retries (bk_qm b) \<le> attempts t" and "tid \<noteq> []"
    and "handle_nack e [(''command'', JStr ''NACK''), (''task_id'', JStr tid)] b = (r, b')"
  shows "\<exists>ws' row. bk_wal b' = Some ws' \<and> dict_get (ws_dlq ws') tid = Some row \<and>
           dr_payload row =
             Dumped (if length (dlq_tasks (qm_dlq (bk_qm b))) < 100 then payload t else JDict [])"
proof -
  let ?now = "env_time e" and ?d = "qm_dlq (bk_qm b)" and ?t = "t\<lparr>status := DeadLettered\<rparr>"
  note wal = assms(1) and ok = assms(2)
  have id: "task_id t = tid" by (rule live_flight_del(4) [OF ok assms(3)])
  obtain qm' where nack: "negative_acknowledge ?now tid (bk_qm b) = (Some (Dead_lettered tid (attempts t) (queue_name t)), qm')"
    and dlq: "qm_dlq qm' = dlq_add ?now ?t ?d"
    using nack_bury [OF assms(3,4) id] by blast
  have new: "dict_get (dlq_tasks ?d) tid = None"
  proof (rule ccontr)
    assume "dict_get (dlq_tasks ?d) tid \<noteq> None"
    then obtain u where u: "dict_get (dlq_tasks ?d) tid = Some u" by blast
    then have "task_id u = tid" using ok dlq_ok_getD [of ?d tid u] by (simp add: qm_ok_def qm_wf_sel dead_task_def)
    with in_values [OF u] have "tid \<in># image_mset task_id (mset (dict_values (dlq_tasks ?d)))" by force
    with ok qm_ok_flight_pool [of "bk_qm b" tid t] assms(3) show False by (simp add: qm_ok_def qm_pool_def)
  qed
  define stub where "stub = dlq_stub ?now tid (queue_name t) (attempts t) (qm_dlq qm')"
  have "task_id stub = tid" by (simp add: stub_def dlq_stub_def Let_def split: option.split)
  moreover have "payload stub = (if length (dlq_tasks ?d) < 100 then payload t else JDict [])"
    using dlq_stub_payload [of ?d ?t ?now "queue_name t" "attempts t"] ok new id
    by (simp add: stub_def dlq qm_ok_def qm_wf_sel)
  moreover have "bk_wal b' = Some (add_to_dlq ?now stub ''max retries exceeded'' ws)"
    using assms(5,6) nack wal
    by (auto simp: handle_nack_def dict_get_or_def complete_task_field_def Let_def stub_def)
  ultimately show ?thesis by (simp add: add_to_dlq_def json_dumps_def)
qed

theorem persisted_dead_letter_payload_witness:
  "\<exists>ws' row. bk_wal (snd (handle_nack gap_env [(''command'', JStr ''NACK''), (''task_id'', JStr ''t'')] last_try_broker)) = Some ws' \<and>
     dict_get (ws_dlq ws') ''t'' = Some row \<and> dr_payload row = Dumped JNull"
proof -
  obtain r b' where run: "handle_nack gap_env [(''command'', JStr ''NACK''), (''task_id'', JStr ''t'')] last_try_broker = (r, b')"
    by fastforce
  have qm: "bk_qm last_try_broker = flying_manager" by (simp add: last_try_broker_def)
  have flight: "dict_get (qm_in_flight (bk_qm last_try_broker)) ''t'' =
      Some (take_in_flight (JStr ''w'') (new_task ''t'' ''q'' JNull 0))"
    by (simp add: qm flying_manager_facts)
  have "max_retries (bk_qm last_try_broker) \<le> attempts (take_in_flight (JStr ''w'') (new_task ''t'' ''q'' JNull 0))"
    by (simp add: qm flying_manager_facts take_in_flight_def)
  moreover have "dlq_tasks (qm_dlq (bk_qm last_try_broker)) = []"
    by (simp add: qm flying_manager_def enqueue_eq qm_init_def dlq_init_def)
  moreover have "payload (take_in_flight (JStr ''w'') (new_task ''t'' ''q'' JNull 0)) = JNull"
    by (simp add: take_in_flight_def)
  moreover have "bk_wal last_try_broker = Some last_try_store" and "qm_ok (bk_qm last_try_broker)"
    by (simp_all add: last_try_broker_def bk_init_def flying_manager_facts(1))
  ultimately show ?thesis using persisted_dead_letter_payload [OF _ _ flight _ _ run] run by simp
qed

text \<open>
  C34. Dead letter commands of a broker with a database touch the database only: \<open>DLQ_REPLAY\<close> and
  \<open>DLQ_PURGE\<close> leave the in-memory dead letter queue exactly as it was, so a replayed or purged
  task can still be brought back by the dashboard's replay of the in-memory queue.
\<close>

theorem database_commands_leave_memory:
  assumes "bk_wal b = Some ws" and "dict_get (dlq_tasks (qm_dlq (bk_qm b))) tid = Some t"
    and "handle_dlq_replay e m b = (r1, b1) \<or> handle_dlq_purge e m b = (r1, b1)"
  shows "qm_dlq (bk_qm b1) = qm_dlq (bk_qm b) \<and> fst (retry_dead tid (bk_qm b1))"
proof -
  have "qm_dlq (bk_qm b1) = qm_dlq (bk_qm b)"
    using assms(1,3)
    by (auto simp: handle_dlq_replay_def handle_dlq_purge_def replay_dlq_task_def persist_new_def enqueue_eq
        Let_def split: if_splits json.splits option.splits sum.splits prod.splits)
  then show ?thesis using assms(2) by (simp add: retry_dead_found)
qed

theorem database_commands_leave_memory_witness:
  "fst (retry_dead ''t'' (bk_qm (snd (handle_dlq_purge gap_env []
     (last_try_broker\<lparr>bk_qm := snd (negative_acknowledge 5 ''t'' flying_manager)\<rparr>)))))"
proof -
  let ?b = "last_try_broker\<lparr>bk_qm := snd (negative_acknowledge 5 ''t'' flying_manager)\<rparr>"
  obtain r b1 where run: "handle_dlq_purge gap_env [] ?b = (r, b1)" by fastforce
  have wal: "bk_wal ?b = Some last_try_store" by (simp add: last_try_broker_def bk_init_def)
  obtain t where "dict_get (dlq_tasks (qm_dlq (bk_qm ?b))) ''t'' = Some t"
    using flying_manager_facts
    by (simp add: negative_acknowledge_def nack_take_def nack_finish_eq Let_def dlq_add_def take_in_flight_def)
  from database_commands_leave_memory [OF wal this, of gap_env "[]" r b1] run show ?thesis by simp
qed

text \<open>
  C35. The dashboard's replay is not persisted. On a broker with a database whose memory and store
  agree, \<open>/admin/dlq/replay-all\<close> puts a dead-lettered task back among the pending ones with a
  fresh attempt count, but leaves the database as it was, in which the task has no unfinished
  row: a crash before the task is finished loses it.
\<close>

theorem replay_all_not_persisted:
  assumes "durable (b, False)" and "bk_wal b = Some ws"
    and "dict_get (dlq_tasks (qm_dlq (bk_qm b))) tid = Some t" and "length (dlq_tasks (qm_dlq (bk_qm b))) \<le> 1000"
    and "replay_dlq_handler b = (j, b')"
  shows "(tid, queue_name t, payload t, 0) \<in> live (bk_qm b') \<and> bk_wal b' = Some ws \<and> tid \<notin> fst ` stored ws"
proof -
  let ?d = "qm_dlq (bk_qm b)"
  have ok: "qm_ok (bk_qm b)" and same: "live (bk_qm b) = stored ws" using assms(1,2) by (auto simp: durable_def core_def)
  have dlq: "dlq_ok ?d" using ok by (simp add: qm_ok_def qm_wf_sel)
  have "map de_task_id (dlq_peek 1000 ?d) = dict_keys (dlq_tasks ?d)"
    using peek_ids [OF dlq, of 1000] assms(4) by simp
  moreover have "tid \<in> set (dict_keys (dlq_tasks ?d))" using dict_get_in [OF assms(3)] by force
  ultimately have "item (retry_task t) \<in> live (bk_qm b')" and "bk_wal b' = Some ws"
    using retry_each_live [of "bk_qm b" "map de_task_id (dlq_peek 1000 ?d)" 0 tid t] assms(2,3,5)
    by (auto simp: replay_dlq_handler_def case_prod_unfold)
  moreover have "item (retry_task t) = (tid, queue_name t, payload t, 0)"
    using dlq_ok_getD [OF dlq assms(3)] by (simp add: item_def retry_task_def dead_task_def)
  ultimately show ?thesis using dead_not_live [OF ok assms(3)] same by simp
qed

theorem replay_all_not_persisted_witness:
  "(''t'', ''q'', JNull, 0) \<in> live (bk_qm (snd (replay_dlq_handler buried_broker)))"
proof -
  obtain j b' where run: "replay_dlq_handler buried_broker = (j, b')" by fastforce
  have "dict_get (dlq_tasks (qm_dlq (bk_qm buried_broker))) ''t'' = Some (dlq_mark 0 (new_task ''t'' ''q'' JNull 0))"
    and "length (dlq_tasks (qm_dlq (bk_qm buried_broker))) \<le> 1000"
    by (simp_all add: buried_broker_facts(3))
  from replay_all_not_persisted [OF buried_broker_facts(1,2) this run] show ?thesis by (simp add: run dlq_mark_def)
qed

text \<open>
  C36. A worker that registers again loses its tasks. If a worker holds a task in flight and sends
  \<open>REGISTER\<close> once more (as it does after a reconnect), the registry forgets the task: an
  eviction pass that comes next, however much later and even when the worker has fallen silent by
  then, leaves the task in flight instead of returning it to its queue.
\<close>

theorem re_registration_strands_tasks:
  assumes "\<And>xs. set (ord xs) = set xs" and "qm_ok qm" and "wr_ok reg" and "tid \<in> flying_ids qm"
    and "\<forall>wid' wi. get_worker reg wid' = Some wi \<longrightarrow> wid' = wid \<or> tid \<notin> set (wi_in_flight_tasks wi)"
    and "evict_dead_workers ord (Some requeue_by_id) now (snd (register t0 wid addr qs c reg), qm) = (reg', qm')"
  shows "tid \<in> flying_ids qm'"
proof -
  have "unheld tid (snd (register t0 wid addr qs c reg))"
  proof -
    have "wr_ok (snd (register t0 wid addr qs c reg))" by (rule wr_ok_register [OF assms(3)])
    then have ok: "dict_ok (wr_workers (snd (register t0 wid addr qs c reg)))" by (simp add: wr_ok_def)
    have "tid \<notin> set (wi_in_flight_tasks wi)"
      if "(k, wi) \<in> set (wr_workers (snd (register t0 wid addr qs c reg)))" for k wi
      using that assms(5) dict_get_content [OF ok, of k wi]
      by (auto simp: register_def get_worker_def split: if_splits)
    then show ?thesis by (auto simp: unheld_def)
  qed
  from unheld_stays_in_flight [OF assms(1,2) this assms(4,6)] show ?thesis .
qed

theorem re_registration_strands_tasks_witness:
  "''t1'' \<in> flying_ids (snd (evict_dead_workers id (Some requeue_by_id) 100
      (snd (register 1 ''w1'' (''host'', 9) [''jobs''] None silent_registry), silent_manager)))"
proof -
  obtain reg' qm' where run: "evict_dead_workers id (Some requeue_by_id) 100
      (snd (register 1 ''w1'' (''host'', 9) [''jobs''] None silent_registry), silent_manager) = (reg', qm')"
    by fastforce
  have "\<forall>wid' wi. get_worker silent_registry wid' = Some wi \<longrightarrow> wid' = ''w1'' \<or> ''t1'' \<notin> set (wi_in_flight_tasks wi)"
    by (simp add: get_worker_def silent_registry_workers)
  from re_registration_strands_tasks [OF _ silent_manager_ok silent_registry_ok _ this run] run show ?thesis
    by (simp add: silent_manager_ids)
qed

text \<open>
  C37. A consumer nobody registered strands its task. \<open>CONSUME\<close> does not ask whether its
  \<open>worker_id\<close> is registered: the head of the queue is taken and put in flight also for a name the
  registry does not know (a worker evicted meanwhile, say) and for a list or object, for which the
  handler then raises \<open>TypeError\<close> before it writes to the database. No worker's entry gets the task,
  and unless an entry had it from before, an eviction pass that comes next, whenever that is,
  leaves it in flight.
\<close>

theorem unknown_consumer_strands_task:
  assumes "\<And>xs. set (ord xs) = set xs" and "qm_ok (bk_qm b)" and "unheld (task_id t) (bk_wr b)"
    and "jget m ''queue'' = JStr q" and "q \<noteq> []" and "q \<noteq> ''*''" and "queue_of (bk_qm b) q = t # ts"
    and "jget m ''worker_id'' = w" and "truthy w"
    and "case w of JStr name \<Rightarrow> get_worker (bk_wr b) name = None | JList _ \<Rightarrow> True | JDict _ \<Rightarrow> True | _ \<Rightarrow> False"
    and "handle_consume e m b = (r, b1)"
    and "evict_dead_workers ord (Some requeue_by_id) now (bk_wr b1, bk_qm b1) = (reg', qm')"
  shows "queue_of (bk_qm b1) q = ts \<and> task_id t \<in> flying_ids qm' \<and>
         (case w of JStr _ \<Rightarrow> \<exists>j. r = Inr j | _ \<Rightarrow> r = Inl TypeError \<and> bk_wal b1 = bk_wal b)"
proof -
  have pop: "dequeue q w (bk_qm b) = (Some (view_of (take_in_flight w t)),
      (put_queue q ts (bk_qm b))\<lparr>qm_in_flight := dict_set (task_id t) (take_in_flight w t) (qm_in_flight (bk_qm b)),
         total_dequeued := Suc (total_dequeued (bk_qm b))\<rparr>)"
    using assms(6,7) by (simp add: dequeue_def pop_task_def Let_def ensure_queue_id take_in_flight_def)
  have qm1: "bk_qm b1 = snd (dequeue q w (bk_qm b))" and wr1: "bk_wr b1 = bk_wr b"
    using assms(4,5,8-11) pop
    by (auto simp: handle_consume_def Let_def assign_task_def get_worker_def split: json.splits)
  have "task_id t \<in> flying_ids (bk_qm b1)" and "queue_of (bk_qm b1) q = ts"
    by (simp_all add: qm1 pop flying_ids_get)
  moreover have "case w of JStr _ \<Rightarrow> \<exists>j. r = Inr j | _ \<Rightarrow> r = Inl TypeError \<and> bk_wal b1 = bk_wal b"
    using assms(4,5,8-11) pop by (auto simp: handle_consume_def Let_def split: json.splits)
  moreover have "task_id t \<in> flying_ids qm'"
    by (rule unheld_stays_in_flight [OF assms(1) _ _ calculation(1) assms(12)])
      (simp_all add: qm1 wr1 assms(2,3) inv_intros)
  ultimately show ?thesis by simp
qed

theorem unknown_consumer_strands_task_witness:
  "''t'' \<in> flying_ids (snd (evict_dead_workers id (Some requeue_by_id) 100
     (bk_wr (snd (handle_consume gap_env [(''queue'', JStr ''q''), (''worker_id'', JStr ''gone'')] waiting_broker)),
      bk_qm (snd (handle_consume gap_env [(''queue'', JStr ''q''), (''worker_id'', JStr ''gone'')] waiting_broker)))))"
proof -
  let ?m = "[(''queue'', JStr ''q''), (''worker_id'', JStr ''gone'')]"
  obtain r b1 where run: "handle_consume gap_env ?m waiting_broker = (r, b1)" by fastforce
  obtain reg' qm' where pass: "evict_dead_workers id (Some requeue_by_id) 100 (bk_wr b1, bk_qm b1) = (reg', qm')"
    by fastforce
  have "jget ?m ''queue'' = JStr ''q''" and "jget ?m ''worker_id'' = JStr ''gone''" by (simp_all add: dict_get_or_def)
  from unknown_consumer_strands_task [OF _ waiting_broker_facts(1,2) this(1) _ _ waiting_broker_facts(3) this(2) _ _ run pass]
  show ?thesis by (simp add: run pass waiting_broker_facts(4))
qed

end
