(* ===== verification/Spec2Isabelle.thy ===== *)
theory Spec2Isabelle
  imports Task_Lifecycle Task_Ledger Admission Worker_Run Heartbeats Task_Executor Http_Api Known_Gaps
begin

text \<open>
  DistroSync: a task broker with retries, dead letters, worker eviction, adaptive load shedding
  and crash recovery.

  \<^bold>\<open>The program.\<close> Producers submit JSON tasks to named queues over TCP
  (\<open>producer/client.py\<close>), workers pull them, acknowledge or refuse them
  (\<open>worker/base_worker.py\<close>), and one broker process owns all state (\<open>broker/server.py\<close>). The
  broker dispatches each framed message to a handler. The handlers work on five components: the
  queue manager (\<open>broker/queue_manager.py\<close>, with the dead letter queue of
  \<open>broker/dead_letter.py\<close>), the worker registry and its eviction loop
  (\<open>broker/worker_registry.py\<close>), the load shedder (\<open>broker/load_shedder.py\<close>, which reads queue
  depths from the queue manager and latencies from the registry), the metrics collector
  (\<open>broker/metrics_collector.py\<close>) and the optional SQLite store (\<open>persistence/wal_store.py\<close>).

  \<^bold>\<open>The theories.\<close>
  \<^item> \<open>Prelude\<close>: time, JSON values, exceptions, insertion-ordered dictionaries, bounded deques,
    Python slicing and rounding, reachability, labelled runs, and the locales of inductive
    invariants and of forward simulations.
  \<^item> \<open>Dead_Letter\<close>: \<open>Task\<close> and every method of \<open>DeadLetterQueue\<close>.
  \<^item> \<open>Queue_Manager\<close>: every method of \<open>QueueManager\<close>; the well-formedness invariant \<open>qm_ok\<close>, its
    preservation, order within a queue, the retry policy, the wildcard consumer.
  \<^item> \<open>Task_Lifecycle\<close>: a step relation that interleaves the critical sections of the queue manager
    and of the dead letter queue in every possible order, the reset included (a negative
    acknowledgement and a replay are two steps each); conservation of tasks, exact counters,
    bounded delivery. The state carries three records the program does not keep: the identifiers
    created (a new one has to be unused), those discarded, and the log of what the operations
    reported, which no step reads.
  \<^item> \<open>Task_Ledger\<close>: an abstract ledger, from task identifier to queue, status and attempts. Each
    call of a method is a label with its arguments and its result, which says when and how the
    ledger may change; the queue manager is simulated by it label by label.
  \<^item> \<open>Worker_Registry\<close>, \<open>Eviction\<close>: every method of \<open>WorkerRegistry\<close>; what an eviction pass does
    to a manager that offers \<open>requeue_by_id\<close> (a locale, interpreted on the queue manager), whom
    it evicts, and, with the two-second sleeps of the loop, when.
  \<^item> \<open>Load_Shedder\<close>, \<open>Admission\<close>: token buckets and the adaptive rate; the admission bound, the
    honesty of the \<open>retry_after\<close> hint, absence of starvation, and backpressure through the
    depth signal of the queue manager.
  \<^item> \<open>Metrics\<close>: every method of \<open>MetricsCollector\<close>; exactness of the windowed rates, percentiles.
  \<^item> \<open>Wal_Store\<close>: every method of \<open>WALStore\<close> on keyed row lists.
  \<^item> \<open>Broker_Server\<close>: the handlers of all commands, the dispatcher, the dashboard handlers,
    recovery at \<open>start\<close>, \<open>stop\<close>, and a wake-up of the eviction loop.
  \<^item> \<open>Durability\<close>: agreement of memory and store over all commands, eviction passes, the
    dashboard's reset and crash-worker actions and restarts after a crash, and recovery from any
    state reached this way. The dashboard's replay-all is left out of these steps, because it
    is not persisted (\<open>Known_Gaps\<close>). A command that raises half-way leaves a row with an old
    attempt count, or an unfinished row of a finished task, never a task without a row.
  \<^item> \<open>Wire_Protocol\<close>, \<open>Connection\<close>: four-byte big-endian framing on 8-bit words, as the broker
    writes and a client reads it, and the connection loop of the broker with its limit of 10 MiB.
  \<^item> \<open>Producer_Client\<close>: exponential backoff and the client's retry loop over an arbitrary
    transport.
  \<^item> \<open>End_To_End\<close>: the client connected to the broker's \<open>PRODUCE\<close> handler.
  \<^item> \<open>Base_Worker\<close>, \<open>Worker_Run\<close>: the worker's registration, heartbeat and consume loops over an
    arbitrary transport; the worker connected to the broker, which empties its queue.
  \<^item> \<open>Heartbeats\<close>: what each command does to the worker registry, and why a worker that keeps
    sending heartbeats stays registered.
  \<^item> \<open>Task_Executor\<close>: the default task function and the process pool worker.
  \<^item> \<open>Py_String\<close>, \<open>Http_Api\<close>: Python string and path functions; routing, static files and
    administrative actions of the dashboard server, and its instance on the broker.
  \<^item> \<open>Known_Gaps\<close>: theorems that pin down where the program does less than it means to.

  \<^bold>\<open>Interfaces.\<close> \<open>inductive_invariant\<close> (a step relation with an invariant) is interpreted for the
  lifecycle (three invariants) and for the broker; \<open>forward_simulation\<close> (runs with labels) for
  manager and ledger; \<open>retry_target\<close> (what the dead letter queue needs of the manager it replays into),
  \<open>requeue_service\<close> (what eviction needs) and \<open>depth_signal\<close> (what load shedding needs) for the
  queue manager; \<open>shedding_broker\<close> (what a producer needs of a broker that sheds load) and
  \<open>work_source\<close> (what a worker needs of a broker) for the dispatcher of the broker.

  \<^bold>\<open>Conventions of the model.\<close>
  \<^item> Python floats are exact rationals: no rounding error and no infinities. The fill rates, tokens
    and times of the program differ from the model's in the last places, and the statements of the
    properties leave room for that where it matters (a strict \<open>t0 + w < t1\<close> for the \<open>retry_after\<close>
    hint, 526 tasks where the exact quotient reaches the floor at 525). The one overflow that
    is visible, \<open>2.0 ** n\<close> in the backoff, is modelled by \<open>float_pow\<close>. Integers are \<open>int\<close> or
    \<open>nat\<close>; Python's are unbounded. Bytes on the wire are 8-bit words.
  \<^item> A dictionary is an association list in insertion order; a set is a list without duplicates
    whose iteration order is an argument (\<open>ord\<close>), and no theorem depends on it.
  \<^item> Clocks, \<open>uuid4\<close>, random draws, the peer address and the transport are arguments. Theorems
    that need fresh identifiers say so in the step relation; a handler reads each clock once.
  \<^item> Exceptions are values: a handler returns \<open>Inl\<close> the exception or \<open>Inr\<close> the response, with the
    state it leaves behind, changes made before the exception included. A list or object where
    a name is used as a key raises \<open>TypeError\<close> at the same point as in the program. A number or
    boolean there, which the program would take as a key, ends in \<open>Inl (IllTyped field)\<close>: the
    model does not follow such values, and the runs of \<open>Durability\<close> exclude these messages.
    The store does not fail. The texts of exceptions are shortened.
  \<^item> Calling an asynchronous handler gives a coroutine, awaiting it gives its result (\<open>py_value\<close>);
    only results can be encoded as JSON.
  \<^item> No section of the broker that holds an \<open>asyncio\<close> lock suspends, so a handler runs as one
    atomic step; \<open>Task_Lifecycle\<close> does not rely on it.
  \<^item> JSON text is not modelled: the store keeps \<open>Dumped j\<close> (or \<open>Raw\<close> text that is no JSON), the
    connection takes the codec as the arguments \<open>enc\<close> and \<open>dec\<close>, which have to agree on the
    messages of the client only.
  \<^item> A table of the store is a keyed list in rowid order, and every method of the store is one
    committed step. Equal \<open>ORDER BY\<close> keys are taken in rowid order; no theorem depends on it.

  \<^bold>\<open>Loops.\<close> The connection loop ends because each round consumes input (the input is the byte
  sequence until end of file), the producer's loop because the backoff runs out; both are
  \<open>function\<close>s with a measure, without fuel. Loops that run until they are told to stop (eviction,
  heartbeats, the worker's consume loop) are functions of the list of their wake-ups or of the
  tests of their condition, so a theorem speaks about every finite observation. The naive
  Fibonacci recursion of the default task function takes the interpreter frames that are left
  and raises \<open>RecursionError\<close> without one, as Python does.

  \<^bold>\<open>Not modelled.\<close> Logging; sockets, signals and argument parsing; cancellation of coroutines; the
  SQLite engine; child processes beyond the call of the task function; the scripts \<open>run_worker.py\<close>,
  \<open>run_load.py\<close> and the benchmarks, which only wire the modelled parts together.
\<close>

end
